theory Spec2Isabelle
  imports Main "HOL-Library.Word"
begin

section \<open>JavaScript strings\<close>

text \<open>
  A JavaScript string is a sequence of UTF-16 code units; \<^verbatim>\<open>s.length\<close> counts them.
  String literals of the source are written with \<open>str\<close>, which reads each ASCII
  character as its code unit.
\<close>

type_synonym cu = "16 word"
type_synonym jsstring = "cu list"

definition str :: "string \<Rightarrow> jsstring" where
  "str s = map of_char s"

text \<open>
  The line terminators of ECMAScript: the code units that \<^verbatim>\<open>.\<close> (without the
  \<^verbatim>\<open>s\<close> flag) does not match.
\<close>

definition isLineTerminator :: "cu \<Rightarrow> bool" where
  "isLineTerminator c = (c = 0x000A \<or> c = 0x000D \<or> c = 0x2028 \<or> c = 0x2029)"

text \<open>
  The class \<^verbatim>\<open>\s\<close>, which is also what \<^verbatim>\<open>String.prototype.trim\<close> strips: the
  white space code points (TAB, VT, FF, ZWNBSP and the category Zs) and the line
  terminators.
\<close>

definition isWhiteSpace :: "cu \<Rightarrow> bool" where
  "isWhiteSpace c =
     (c = 0x0009 \<or> c = 0x000B \<or> c = 0x000C \<or> c = 0x0020 \<or> c = 0x00A0 \<or> c = 0x1680
      \<or> (0x2000 \<le> c \<and> c \<le> 0x200A) \<or> c = 0x202F \<or> c = 0x205F \<or> c = 0x3000
      \<or> c = 0xFEFF \<or> isLineTerminator c)"

definition trim :: "jsstring \<Rightarrow> jsstring" where
  "trim s = rev (dropWhile isWhiteSpace (rev (dropWhile isWhiteSpace s)))"

text \<open>
  Case folding of the \<^verbatim>\<open>i\<close> flag (without \<^verbatim>\<open>u\<close>): a code unit is compared
  through its upper-case form, and a code unit of 128 or more is never folded onto an
  ASCII one. Against the ASCII characters of the patterns below, two code units are
  therefore equal under the flag exactly when they agree up to the case of an ASCII
  letter.
\<close>

definition asciiUpper :: "cu \<Rightarrow> cu" where
  "asciiUpper c = (if 0x61 \<le> c \<and> c \<le> 0x7A then c - 0x20 else c)"

definition cuMatches :: "bool \<Rightarrow> cu \<Rightarrow> cu \<Rightarrow> bool" where
  "cuMatches ignoreCase p c = (if ignoreCase then asciiUpper p = asciiUpper c else p = c)"

section \<open>The regular expressions of the tag scan\<close>

text \<open>
  The patterns of the source are concatenations of three kinds of item: a literal, the
  greedy \<^verbatim>\<open>\s+\<close>, and the capturing lazy group \<^verbatim>\<open>(.*?)\<close>. The matcher is the
  backtracking matcher of ECMAScript restricted to these items.
\<close>

datatype rx = Lit jsstring | WsPlus | Group

fun litAt :: "bool \<Rightarrow> jsstring \<Rightarrow> jsstring \<Rightarrow> bool" where
  "litAt ic [] s = True"
| "litAt ic (p # ps) [] = False"
| "litAt ic (p # ps) (c # cs) = (cuMatches ic p c \<and> litAt ic ps cs)"

text \<open>
  \<open>matchAt ic r s\<close> matches the items \<open>r\<close> at the start of \<open>s\<close> and gives the number
  of code units consumed and the text of capture group 1 (\<open>None\<close> when the pattern has
  no group: \<^verbatim>\<open>undefined\<close> in the match array).
  \<^item> \<^verbatim>\<open>\s+\<close> takes one white space code unit, then first tries to take more and only
    then goes on with the rest of the pattern;
  \<^item> \<^verbatim>\<open>(.*?)\<close> first tries the rest of the pattern with what it holds, and only then
    takes one more code unit, which must not be a line terminator.
\<close>

fun matchAt :: "bool \<Rightarrow> rx list \<Rightarrow> jsstring \<Rightarrow> (nat \<times> jsstring option) option" where
  "matchAt ic [] s = Some (0, None)"
| "matchAt ic (Lit l # r) s =
     (if litAt ic l s
      then (case matchAt ic r (drop (length l) s) of
              None \<Rightarrow> None
            | Some (n, g) \<Rightarrow> Some (length l + n, g))
      else None)"
| "matchAt ic (WsPlus # r) [] = None"
| "matchAt ic (WsPlus # r) (c # cs) =
     (if isWhiteSpace c
      then (case matchAt ic (WsPlus # r) cs of
              Some (n, g) \<Rightarrow> Some (Suc n, g)
            | None \<Rightarrow>
                (case matchAt ic r cs of
                   None \<Rightarrow> None
                 | Some (n, g) \<Rightarrow> Some (Suc n, g)))
      else None)"
| "matchAt ic (Group # r) [] =
     (case matchAt ic r [] of
        Some (n, g) \<Rightarrow> Some (n, Some [])
      | None \<Rightarrow> None)"
| "matchAt ic (Group # r) (c # cs) =
     (case matchAt ic r (c # cs) of
        Some (n, g) \<Rightarrow> Some (n, Some [])
      | None \<Rightarrow>
          if isLineTerminator c then None
          else (case matchAt ic (Group # r) cs of
                  None \<Rightarrow> None
                | Some (n, g) \<Rightarrow> Some (Suc n, map_option ((#) c) g)))"

text \<open>
  \<^verbatim>\<open>s.match(re)\<close> for a pattern without the \<^verbatim>\<open>g\<close> flag: the match at the leftmost
  start position that has one. The result is the pair of \<^verbatim>\<open>match[0]\<close> and
  \<^verbatim>\<open>match[1]\<close>; \<open>None\<close> is \<^verbatim>\<open>null\<close>.
\<close>

fun rxMatch :: "bool \<Rightarrow> rx list \<Rightarrow> jsstring \<Rightarrow> (jsstring \<times> jsstring option) option" where
  "rxMatch ic r [] =
     (case matchAt ic r [] of None \<Rightarrow> None | Some (n, g) \<Rightarrow> Some ([], g))"
| "rxMatch ic r (c # cs) =
     (case matchAt ic r (c # cs) of
        None \<Rightarrow> rxMatch ic r cs
      | Some (n, g) \<Rightarrow> Some (take n (c # cs), g))"

text \<open>
  \<^verbatim>\<open>s.replace(pat, '')\<close> with a string pattern: the first occurrence of \<open>pat\<close> in
  \<open>s\<close> is removed, and \<open>s\<close> is unchanged when there is none.
\<close>

fun removeFirst :: "jsstring \<Rightarrow> jsstring \<Rightarrow> jsstring" where
  "removeFirst pat [] = []"
| "removeFirst pat (c # cs) =
     (if litAt False pat (c # cs) then drop (length pat) (c # cs)
      else c # removeFirst pat cs)"

section \<open>Data of the agent\<close>

datatype RouterAction = SEARCH | DEEP_SEARCH | THINK | IMAGE | CANVAS | PROJECT | STUDY | SIMPLE

text \<open>
  \<^verbatim>\<open>parameters\<close> is an object used as a dictionary from property names to strings;
  \<^verbatim>\<open>MemoryLayer\<close> is a type of string literals.
\<close>

record RoutingDecision =
  action :: RouterAction
  parameters :: "string \<rightharpoonup> jsstring"
  confidence :: nat
  memoryLayers :: "jsstring list"
  quotaOK :: bool
  reasoning :: jsstring

text \<open>
  A thrown value: an \<^verbatim>\<open>Error\<close> object with its message, or any other value.
\<close>

datatype exn = ErrorObject jsstring | OtherValue jsstring

type_synonym GroundingChunk = jsstring

record MemoryEntry =
  layer :: jsstring
  key :: jsstring
  val :: jsstring

text \<open>
  \<^verbatim>\<open>metadataPayload\<close> starts as the empty object; a key that is absent is \<open>None\<close>.
  A message is built as \<^verbatim>\<open>{ project_id, chat_id, sender, text, ...metadataPayload }\<close>:
  it has the keys of the payload beside its own.
\<close>

record MetadataPayload =
  groundingMetadata :: "GroundingChunk list option"
  memoryToCreate :: "MemoryEntry list option"

record Message = MetadataPayload +
  project_id :: jsstring
  chat_id :: jsstring
  sender :: jsstring
  "text" :: jsstring
  image_base64 :: "jsstring option"
  imageStatus :: "jsstring option"

record AgentExecutionResult =
  messages :: "Message list"

record Ref =
  ident :: jsstring

record Profile =
  preferred_image_model :: "jsstring option"

record File =
  file_name :: jsstring
  file_type :: jsstring

text \<open>
  The input of the agent. The database client is only handed on to the collaborators,
  which are in the environment below. \<^verbatim>\<open>onStreamChunk\<close> is an optional observer that
  is taken to return normally: the arguments it is called with are recorded in the state.
\<close>

record AgentInput =
  prompt :: jsstring
  files :: "File list option"
  apiKey :: jsstring
  project :: Ref
  chat :: Ref
  history :: "Message list"
  user :: Ref
  profile :: "Profile option"

subsection \<open>The model service\<close>

record GroundingMetadata =
  groundingChunks :: "GroundingChunk list option"

record Candidate =
  cand_groundingMetadata :: "GroundingMetadata option"

record Chunk =
  chunk_text :: "jsstring option"
  candidates :: "Candidate list option"

text \<open>
  A response stream yields its chunks in order and then either ends or throws.
\<close>

record Stream =
  chunks :: "Chunk list"
  failure :: "exn option"

datatype Part = TextPart jsstring | InlineData "jsstring option" jsstring

record Content =
  role :: jsstring
  parts :: "Part list"

datatype Contents = Prompt jsstring | Turns "Content list"

record Config =
  systemInstruction :: "jsstring option"
  googleSearch :: bool
  responseModalities :: "jsstring list option"
  responseMimeType :: "jsstring option"

record Request =
  model :: jsstring
  contents :: Contents
  config :: "Config option"

record ResearchResult =
  answer :: jsstring
  sources :: "jsstring list"

subsection \<open>The collaborators\<close>

text \<open>
  Everything the agent calls outside itself: each call returns a value or throws.
  \<^item> \<open>getContext\<close> is \<^verbatim>\<open>new Memory5Layer(supabase, user.id).getContext(layers)\<close>; the
    context is only ever used through \<^verbatim>\<open>JSON.stringify\<close>, and is represented by that
    text;
  \<^item> \<open>timestamp\<close> is what \<^verbatim>\<open>formatTimestamp()\<close> reads from the clock;
  \<^item> \<open>deepResearch\<close> gives the progress messages it reports before it returns or
    throws;
  \<^item> \<open>readAsDataURL\<close> is the \<^verbatim>\<open>FileReader\<close>: the data URL of a file, or the error
    event it rejects with;
  \<^item> \<open>autonomousInstruction\<close> and \<open>getUserFriendlyError\<close> are imported from modules
    that are not part of the source at hand.
\<close>

record Env =
  autonomousInstruction :: jsstring
  timestamp :: jsstring
  getContext :: "jsstring \<Rightarrow> jsstring list \<Rightarrow> exn + jsstring"
  generateContentStream :: "Request \<Rightarrow> exn + Stream"
  generateContent :: "Request \<Rightarrow> exn + jsstring option"
  deepResearch :: "jsstring \<Rightarrow> jsstring list \<times> (exn + ResearchResult)"
  incrementThinkingCount :: "jsstring \<Rightarrow> exn option"
  generateImage :: "jsstring \<Rightarrow> jsstring \<Rightarrow> jsstring option \<Rightarrow> exn + jsstring"
  readAsDataURL :: "File \<Rightarrow> exn + jsstring"
  getUserFriendlyError :: "exn \<Rightarrow> jsstring"

subsection \<open>The state of a run\<close>

datatype StreamArg = Plain jsstring | ImageGenerationStart jsstring

datatype Call =
    GetContext jsstring "jsstring list"
  | ReadAsDataURL File
  | GenerateContentStream Request
  | GenerateContent Request
  | DeepResearch jsstring
  | IncrementThinkingCount jsstring
  | GenerateImage jsstring jsstring "jsstring option"

text \<open>
  The local variables of \<^verbatim>\<open>runAutonomousAgent\<close> that change (the loop counter is an
  argument of the loop), and what the run does to the outside: the lines of
  \<^verbatim>\<open>console.log\<close>, the arguments given to \<^verbatim>\<open>onStreamChunk\<close>
  (\<open>ImageGenerationStart t\<close> is the JSON text of
  \<^verbatim>\<open>{ type: 'image_generation_start', text: t }\<close>), and the calls to the services.
\<close>

record AgentState =
  finalResponseText :: jsstring
  metadataPayload :: MetadataPayload
  currentAction :: RouterAction
  currentPrompt :: jsstring
  routing :: RoutingDecision
  console :: "(nat \<times> RouterAction) list"
  streamed :: "StreamArg list"
  calls :: "Call list"

record Ctx =
  memoryContext :: jsstring
  dateTimeContext :: jsstring

datatype Flow = Continue | Return Message | Throw exn

section \<open>The router\<close>

text \<open>\<^verbatim>\<open>BubbleSemanticRouter.route(query, userId, apiKey, fileCount)\<close>.\<close>

definition route :: "jsstring \<Rightarrow> jsstring \<Rightarrow> jsstring \<Rightarrow> nat \<Rightarrow> RoutingDecision" where
  "route query userId apiKey' fileCount =
     \<lparr> action = SIMPLE,
       parameters = Map.empty,
       confidence = 1,
       memoryLayers = [str ''inner_personal'', str ''outer_personal'', str ''interests'',
                       str ''preferences'', str ''custom'', str ''codebase'',
                       str ''aesthetic'', str ''project''],
       quotaOK = True,
       reasoning = str ''Defaulting to conversation. Tags will trigger specific actions.'' \<rparr>"

section \<open>The agent\<close>

definition MAX_LOOPS :: nat where
  "MAX_LOOPS = 2"

text \<open>\<^verbatim>\<open>xs.join(sep)\<close> on an array of strings.\<close>

fun join :: "jsstring \<Rightarrow> jsstring list \<Rightarrow> jsstring" where
  "join sep [] = []"
| "join sep [x] = x"
| "join sep (x # y # ys) = x @ sep @ join sep (y # ys)"

text \<open>
  The text of a chunk when \<^verbatim>\<open>if (chunk.text)\<close> holds: it is there and not empty.
\<close>

definition truthyText :: "Chunk \<Rightarrow> jsstring option" where
  "truthyText chunk =
     (case chunk_text chunk of None \<Rightarrow> None | Some t \<Rightarrow> if t = [] then None else Some t)"

definition emit :: "StreamArg \<Rightarrow> AgentState \<Rightarrow> AgentState" where
  "emit x st = st\<lparr>streamed := streamed st @ [x]\<rparr>"

definition called :: "Call \<Rightarrow> AgentState \<Rightarrow> AgentState" where
  "called c st = st\<lparr>calls := calls st @ [c]\<rparr>"

definition appendText :: "jsstring \<Rightarrow> AgentState \<Rightarrow> AgentState" where
  "appendText t st = st\<lparr>finalResponseText := finalResponseText st @ t\<rparr>"

text \<open>
  \<^verbatim>\<open>{ project_id: project.id, chat_id: chat.id, sender: 'ai', text: finalResponseText,
  ...metadataPayload }\<close>
\<close>

definition mkMessage :: "AgentInput \<Rightarrow> AgentState \<Rightarrow> Message" where
  "mkMessage inp st =
     \<lparr> groundingMetadata = groundingMetadata (metadataPayload st),
       memoryToCreate = memoryToCreate (metadataPayload st),
       project_id = ident (project inp),
       chat_id = ident (chat inp),
       sender = str ''ai'',
       text = finalResponseText st,
       image_base64 = None,
       imageStatus = None \<rparr>"

text \<open>
  The citations of one chunk:
  \<^verbatim>\<open>chunk.candidates?.[0]\<close>, its \<^verbatim>\<open>groundingMetadata\<close> and the
  \<^verbatim>\<open>groundingChunks\<close> of that are each skipped when absent; otherwise the chunks are
  pushed onto \<^verbatim>\<open>metadataPayload.groundingMetadata\<close>, which is created empty first.
\<close>

definition captureGrounding :: "Chunk \<Rightarrow> MetadataPayload \<Rightarrow> MetadataPayload" where
  "captureGrounding chunk p =
     (case candidates chunk of
        None \<Rightarrow> p
      | Some [] \<Rightarrow> p
      | Some (candidate # _) \<Rightarrow>
          (case cand_groundingMetadata candidate of
             None \<Rightarrow> p
           | Some gm \<Rightarrow>
               (case groundingChunks gm of
                  None \<Rightarrow> p
                | Some gcs \<Rightarrow>
                    p\<lparr>groundingMetadata :=
                        Some ((case groundingMetadata p of None \<Rightarrow> [] | Some old \<Rightarrow> old) @ gcs)\<rparr>)))"

text \<open>The body of \<^verbatim>\<open>for await (const chunk of response)\<close> where only the text is read.\<close>

definition textChunk :: "AgentState \<Rightarrow> Chunk \<Rightarrow> AgentState" where
  "textChunk st chunk =
     (case truthyText chunk of
        None \<Rightarrow> st
      | Some t \<Rightarrow> emit (Plain t) (appendText t st))"

text \<open>The body of the loop over the stream in \<^verbatim>\<open>case 'SEARCH'\<close>.\<close>

definition searchChunk :: "AgentState \<Rightarrow> Chunk \<Rightarrow> AgentState" where
  "searchChunk st chunk =
     (let st1 = textChunk st chunk
      in st1\<lparr>metadataPayload := captureGrounding chunk (metadataPayload st1)\<rparr>)"

text \<open>
  The body of the loop over the stream in \<^verbatim>\<open>case 'SIMPLE'\<close>, on the text generated in
  this iteration and the state: the citations are read inside \<^verbatim>\<open>if (chunk.text)\<close>.
\<close>

definition simpleChunk :: "jsstring \<times> AgentState \<Rightarrow> Chunk \<Rightarrow> jsstring \<times> AgentState" where
  "simpleChunk gs chunk =
     (case gs of (generatedThisLoop, st) \<Rightarrow>
        (case truthyText chunk of
           None \<Rightarrow> (generatedThisLoop, st)
         | Some t \<Rightarrow>
             (let st1 = emit (Plain t) (appendText t st)
              in (generatedThisLoop @ t,
                  st1\<lparr>metadataPayload := captureGrounding chunk (metadataPayload st1)\<rparr>))))"

text \<open>
  A text stream consumed to its end: the state after the chunks, and the message
  returned, or the exception of the stream.
\<close>

definition finish :: "AgentInput \<Rightarrow> Stream \<Rightarrow> AgentState \<Rightarrow> AgentState \<times> Flow" where
  "finish inp response st =
     (case failure response of
        Some e \<Rightarrow> (st, Throw e)
      | None \<Rightarrow> (st, Return (mkMessage inp st)))"

subsection \<open>The tool modes\<close>

text \<open>
  The request of each mode is the argument of its call of
  \<^verbatim>\<open>ai.models.generateContentStream\<close> or \<^verbatim>\<open>ai.models.generateContent\<close>.
\<close>

definition searchRequest :: "Env \<Rightarrow> Ctx \<Rightarrow> jsstring \<Rightarrow> Request" where
  "searchRequest env ctx currentPrompt' =
     (let searchSystemPrompt =
            autonomousInstruction env @ str ''\<newline>\<newline>'' @ dateTimeContext ctx
            @ str ''\<newline>\<newline>Provide a helpful, friendly answer to the user's query using Google Search. Maintain your persona (Bubble). Cite sources.''
      in \<lparr> model = str ''gemini-2.0-flash-exp'',
           contents = Prompt (str ''User Query: '' @ currentPrompt'),
           config = Some \<lparr> systemInstruction = Some searchSystemPrompt,
                           googleSearch = True,
                           responseModalities = Some [str ''TEXT''],
                           responseMimeType = None \<rparr> \<rparr>)"

definition execSEARCH :: "Env \<Rightarrow> AgentInput \<Rightarrow> Ctx \<Rightarrow> AgentState \<Rightarrow> AgentState \<times> Flow" where
  "execSEARCH env inp ctx st =
     (let st1 = emit (Plain (str ''\<newline>\<newline>'' @ [0xD83D, 0xDD0D] @ str '' Searching the web...'')) st;
          req = searchRequest env ctx (currentPrompt st1);
          st2 = called (GenerateContentStream req) st1
      in case generateContentStream env req of
           Inl e \<Rightarrow> (st2, Throw e)
         | Inr searchResponse \<Rightarrow>
             finish inp searchResponse (foldl searchChunk st2 (chunks searchResponse)))"

definition execDEEP_SEARCH :: "Env \<Rightarrow> AgentInput \<Rightarrow> Ctx \<Rightarrow> AgentState \<Rightarrow> AgentState \<times> Flow" where
  "execDEEP_SEARCH env inp ctx st =
     (let st1 = emit (Plain (str ''\<newline>\<newline>'' @ [0xD83D, 0xDD2C] @ str '' Deep Researching...'')) st;
          st2 = called (DeepResearch (currentPrompt st1)) st1
      in case deepResearch env (currentPrompt st1) of (progress, outcome) \<Rightarrow>
           (let st3 = foldl (\<lambda>s msg. emit (Plain (str ''\<newline>*'' @ msg @ str ''*'')) s) st2 progress
            in case outcome of
                 Inl e \<Rightarrow> (st3, Throw e)
               | Inr result \<Rightarrow>
                   (let researchText =
                          answer result @ str ''\<newline>\<newline>**Sources:**\<newline>''
                          @ join (str ''\<newline>'') (sources result);
                        st4 = appendText (str ''\<newline>\<newline>'' @ researchText) st3;
                        st5 = emit (Plain researchText) st4
                    in (st5, Return (mkMessage inp st5)))))"

text \<open>
  \<^verbatim>\<open>history.map(msg => ({ role: ..., parts: [{ text: msg.text }] }))
  .filter(msg => msg.parts[0].text.trim() !== '')\<close>
\<close>

definition toContent :: "Message \<Rightarrow> Content" where
  "toContent msg =
     \<lparr> role = (if sender msg = str ''user'' then str ''user'' else str ''model''),
       parts = [TextPart (text msg)] \<rparr>"

definition firstPartText :: "Content \<Rightarrow> jsstring" where
  "firstPartText c = (case parts c of TextPart t # _ \<Rightarrow> t | _ \<Rightarrow> [])"

definition geminiHistory :: "Message list \<Rightarrow> Content list" where
  "geminiHistory h = filter (\<lambda>msg. trim (firstPartText msg) \<noteq> []) (map toContent h)"

definition thinkRequest :: "Env \<Rightarrow> AgentInput \<Rightarrow> Ctx \<Rightarrow> jsstring \<Rightarrow> Request" where
  "thinkRequest env inp ctx currentPrompt' =
     (let contextBlock =
            str ''\<newline>'' @ autonomousInstruction env @ str ''\<newline>\<newline>''
            @ dateTimeContext ctx @ str ''\<newline>\<newline>[MEMORY]\<newline>''
            @ memoryContext ctx @ str ''\<newline>\<newline>[TASK]\<newline>''
            @ currentPrompt' @ str ''\<newline>''
      in \<lparr> model = str ''gemini-2.0-flash-thinking-exp-1219'',
           contents = Turns (geminiHistory (history inp)
                             @ [\<lparr> role = str ''user'', parts = [TextPart contextBlock] \<rparr>]),
           config = None \<rparr>)"

definition execTHINK :: "Env \<Rightarrow> AgentInput \<Rightarrow> Ctx \<Rightarrow> AgentState \<Rightarrow> AgentState \<times> Flow" where
  "execTHINK env inp ctx st =
     (let st1 = emit (Plain (str ''\<newline>\<newline>'' @ [0xD83E, 0xDDE0] @ str '' Thinking...'')) st;
          st2 = called (IncrementThinkingCount (ident (user inp))) st1
      in case incrementThinkingCount env (ident (user inp)) of
           Some e \<Rightarrow> (st2, Throw e)
         | None \<Rightarrow>
             (let req = thinkRequest env inp ctx (currentPrompt st2);
                  st3 = called (GenerateContentStream req) st2
              in case generateContentStream env req of
                   Inl e \<Rightarrow> (st3, Throw e)
                 | Inr response \<Rightarrow>
                     finish inp response (foldl textChunk st3 (chunks response))))"

text \<open>
  \<^verbatim>\<open>routing.parameters?.prompt || currentPrompt\<close> and
  \<^verbatim>\<open>profile?.preferred_image_model\<close>.
\<close>

definition imagePrompt :: "AgentState \<Rightarrow> jsstring" where
  "imagePrompt st =
     (case parameters (routing st) ''prompt'' of
        None \<Rightarrow> currentPrompt st
      | Some p \<Rightarrow> if p = [] then currentPrompt st else p)"

definition preferredImageModel :: "AgentInput \<Rightarrow> jsstring option" where
  "preferredImageModel inp =
     (case profile inp of None \<Rightarrow> None | Some pr \<Rightarrow> preferred_image_model pr)"

definition execIMAGE :: "Env \<Rightarrow> AgentInput \<Rightarrow> Ctx \<Rightarrow> AgentState \<Rightarrow> AgentState \<times> Flow" where
  "execIMAGE env inp ctx st =
     (let st1 = emit (ImageGenerationStart (finalResponseText st)) st;
          st2 = called (GenerateImage (imagePrompt st1) (apiKey inp) (preferredImageModel inp)) st1
      in case generateImage env (imagePrompt st1) (apiKey inp) (preferredImageModel inp) of
           Inr imageBase64 \<Rightarrow>
             (st2, Return ((mkMessage inp st2)
                             \<lparr>image_base64 := Some imageBase64, imageStatus := Some (str ''complete'')\<rparr>))
         | Inl e \<Rightarrow>
             (let errorMsg =
                    str ''\<newline>\<newline>(Image generation failed: ''
                    @ (case e of ErrorObject message \<Rightarrow> message | OtherValue _ \<Rightarrow> str ''Unknown error'')
                    @ str '')'';
                  st3 = emit (Plain errorMsg) (appendText errorMsg st2)
              in (st3, Return (mkMessage inp st3))))"

definition canvasRequest :: "jsstring \<Rightarrow> Request" where
  "canvasRequest currentPrompt' =
     (let canvasPrompt =
            str ''Create a single-file solution for: '' @ currentPrompt' @ str ''. \<newline>''
            @ replicate 20 0x20 @ str ''If it's a web page, provide full HTML/CSS/JS in one file. \<newline>''
            @ replicate 20 0x20 @ str ''If it's a script, provide the full code. \<newline>''
            @ replicate 20 0x20 @ str ''Do not use markdown backticks for the main code block in the final output if possible, or ensure it's clean.''
      in \<lparr> model = str ''gemini-2.5-flash-exp'',
           contents = Prompt canvasPrompt,
           config = Some \<lparr> systemInstruction =
                             Some (str ''You are an expert coder. Generate concise, production-ready code.''),
                           googleSearch = False,
                           responseModalities = None,
                           responseMimeType = None \<rparr> \<rparr>)"

definition execCANVAS :: "Env \<Rightarrow> AgentInput \<Rightarrow> Ctx \<Rightarrow> AgentState \<Rightarrow> AgentState \<times> Flow" where
  "execCANVAS env inp ctx st =
     (let st1 = emit (Plain (str ''\<newline>\<newline>'' @ [0xD83D, 0xDCDD] @ str '' Opening Canvas...'')) st;
          req = canvasRequest (currentPrompt st1);
          st2 = called (GenerateContentStream req) st1
      in case generateContentStream env req of
           Inl e \<Rightarrow> (st2, Throw e)
         | Inr response \<Rightarrow> finish inp response (foldl textChunk st2 (chunks response)))"

definition projectRequest :: "jsstring \<Rightarrow> Request" where
  "projectRequest currentPrompt' =
     \<lparr> model = str ''gemini-2.5-flash-exp'',
       contents = Prompt (str ''Build a complete file structure for a project: ''
                          @ currentPrompt'
                          @ str ''. Return a JSON object with filenames and brief content descriptions.''),
       config = Some \<lparr> systemInstruction = None,
                       googleSearch = False,
                       responseModalities = None,
                       responseMimeType = Some (str ''application/json'') \<rparr> \<rparr>"

definition execPROJECT :: "Env \<Rightarrow> AgentInput \<Rightarrow> Ctx \<Rightarrow> AgentState \<Rightarrow> AgentState \<times> Flow" where
  "execPROJECT env inp ctx st =
     (let st1 = emit (Plain (str ''\<newline>\<newline>'' @ [0xD83D, 0xDCE6] @ str '' Building project structure...'')) st;
          req = projectRequest (currentPrompt st1);
          st2 = called (GenerateContent req) st1
      in case generateContent env req of
           Inl e \<Rightarrow> (st2, Throw e)
         | Inr responseText \<Rightarrow>
             (let projectMsg =
                    str ''\<newline>I've designed the project structure based on your request.\<newline>\<newline>''
                    @ (case responseText of None \<Rightarrow> str ''undefined'' | Some t \<Rightarrow> t)
                    @ str ''\<newline>\<newline>(Switch to Co-Creator mode to fully hydrate and edit these files.)'';
                  st3 = emit (Plain projectMsg) (appendText projectMsg st2)
              in (st3, Return (mkMessage inp st3))))"

definition studyRequest :: "jsstring \<Rightarrow> Request" where
  "studyRequest currentPrompt' =
     \<lparr> model = str ''gemini-2.0-flash-exp'',
       contents = Prompt (str ''Create a structured study plan for: '' @ currentPrompt'
                          @ str ''. Include learning objectives and key concepts.''),
       config = None \<rparr>"

definition execSTUDY :: "Env \<Rightarrow> AgentInput \<Rightarrow> Ctx \<Rightarrow> AgentState \<Rightarrow> AgentState \<times> Flow" where
  "execSTUDY env inp ctx st =
     (let st1 = emit (Plain (str ''\<newline>\<newline>'' @ [0xD83D, 0xDCDA] @ str '' Creating study plan...'')) st;
          req = studyRequest (currentPrompt st1);
          st2 = called (GenerateContentStream req) st1
      in case generateContentStream env req of
           Inl e \<Rightarrow> (st2, Throw e)
         | Inr response \<Rightarrow> finish inp response (foldl textChunk st2 (chunks response)))"

subsection \<open>The conversational mode and the tag scan\<close>

text \<open>\<^verbatim>\<open>/<T>(.*?)<\/T>/\<close> for an opening and a closing tag.\<close>

definition pairRx :: "jsstring \<Rightarrow> jsstring \<Rightarrow> rx list" where
  "pairRx opening closing = [Lit opening, Group, Lit closing]"

text \<open>\<^verbatim>\<open>/<SEARCH>deep\s+(.*?)<\/SEARCH>/i\<close>\<close>

definition deepSearchRx :: "rx list" where
  "deepSearchRx = [Lit (str ''<SEARCH>deep''), WsPlus, Group, Lit (str ''</SEARCH>'')]"

text \<open>\<^verbatim>\<open>a || b\<close> on two match results.\<close>

definition orElse :: "'a option \<Rightarrow> 'a option \<Rightarrow> 'a option" where
  "orElse a b = (case a of None \<Rightarrow> b | Some x \<Rightarrow> Some x)"

text \<open>
  \<^verbatim>\<open>match[0]\<close> and \<^verbatim>\<open>match[1]\<close>. The second is read without a test only from
  patterns that have the group, where it is always there.
\<close>

definition whole :: "jsstring \<times> jsstring option \<Rightarrow> jsstring" where
  "whole m = fst m"

definition group1 :: "jsstring \<times> jsstring option \<Rightarrow> jsstring" where
  "group1 m = (case snd m of None \<Rightarrow> [] | Some g \<Rightarrow> g)"

text \<open>
  What every branch of the tag scan does before \<^verbatim>\<open>continue\<close>: the new mode, the new
  prompt, and \<^verbatim>\<open>finalResponseText.replace(match[0], '')\<close>.
\<close>

definition reroute :: "RouterAction \<Rightarrow> jsstring \<Rightarrow> jsstring \<Rightarrow> AgentState \<Rightarrow> AgentState" where
  "reroute a p m0 st =
     st\<lparr>currentAction := a, currentPrompt := p,
        finalResponseText := removeFirst m0 (finalResponseText st)\<rparr>"

text \<open>The seven matches computed from the text generated in this iteration.\<close>

definition searchMatch :: "jsstring \<Rightarrow> (jsstring \<times> jsstring option) option" where
  "searchMatch generatedThisLoop =
     rxMatch False (pairRx (str ''<SEARCH>'') (str ''</SEARCH>'')) generatedThisLoop"

definition deepMatch :: "jsstring \<Rightarrow> (jsstring \<times> jsstring option) option" where
  "deepMatch generatedThisLoop =
     orElse (rxMatch False (pairRx (str ''<DEEP>'') (str ''</DEEP>'')) generatedThisLoop)
            (rxMatch True deepSearchRx generatedThisLoop)"

definition thinkMatch :: "jsstring \<Rightarrow> (jsstring \<times> jsstring option) option" where
  "thinkMatch generatedThisLoop =
     orElse (rxMatch False (pairRx (str ''<THINK>'') (str ''</THINK>'')) generatedThisLoop)
            (rxMatch False [Lit (str ''<THINK>'')] generatedThisLoop)"

definition imageMatch :: "jsstring \<Rightarrow> (jsstring \<times> jsstring option) option" where
  "imageMatch generatedThisLoop =
     rxMatch False (pairRx (str ''<IMAGE>'') (str ''</IMAGE>'')) generatedThisLoop"

definition projectMatch :: "jsstring \<Rightarrow> (jsstring \<times> jsstring option) option" where
  "projectMatch generatedThisLoop =
     rxMatch False (pairRx (str ''<PROJECT>'') (str ''</PROJECT>'')) generatedThisLoop"

definition canvasMatch :: "jsstring \<Rightarrow> (jsstring \<times> jsstring option) option" where
  "canvasMatch generatedThisLoop =
     rxMatch False (pairRx (str ''<CANVAS>'') (str ''</CANVAS>'')) generatedThisLoop"

definition studyMatch :: "jsstring \<Rightarrow> (jsstring \<times> jsstring option) option" where
  "studyMatch generatedThisLoop =
     rxMatch False (pairRx (str ''<STUDY>'') (str ''</STUDY>'')) generatedThisLoop"

text \<open>
  The chain of \<^verbatim>\<open>if (match) { ...; continue; }\<close> in the order of the source, and
  after it the memory heuristic and the \<^verbatim>\<open>return\<close> of the conversational mode.
\<close>

definition tagDetection :: "AgentInput \<Rightarrow> jsstring \<Rightarrow> AgentState \<Rightarrow> AgentState \<times> Flow" where
  "tagDetection inp generatedThisLoop st =
     (case deepMatch generatedThisLoop of
           Some m \<Rightarrow> (reroute DEEP_SEARCH (group1 m) (whole m) st, Continue)
         | None \<Rightarrow>
        (case searchMatch generatedThisLoop of
           Some m \<Rightarrow> (reroute SEARCH (group1 m) (whole m) st, Continue)
         | None \<Rightarrow>
        (case thinkMatch generatedThisLoop of
           Some m \<Rightarrow>
             (reroute THINK
                (case snd m of
                   None \<Rightarrow> prompt inp
                 | Some g \<Rightarrow> if g = [] then prompt inp else trim g)
                (whole m) st, Continue)
         | None \<Rightarrow>
        (case imageMatch generatedThisLoop of
           Some m \<Rightarrow>
             ((reroute IMAGE (group1 m) (whole m) st)
                \<lparr>routing := (routing st)\<lparr>parameters := [''prompt'' \<mapsto> group1 m]\<rparr>\<rparr>, Continue)
         | None \<Rightarrow>
        (case projectMatch generatedThisLoop of
           Some m \<Rightarrow> (reroute PROJECT (group1 m) (whole m) st, Continue)
         | None \<Rightarrow>
        (case canvasMatch generatedThisLoop of
           Some m \<Rightarrow> (reroute CANVAS (group1 m) (whole m) st, Continue)
         | None \<Rightarrow>
        (case studyMatch generatedThisLoop of
           Some m \<Rightarrow> (reroute STUDY (group1 m) (whole m) st, Continue)
         | None \<Rightarrow>
             (let st1 =
                    (if length generatedThisLoop > 50
                     then st\<lparr>metadataPayload := (metadataPayload st)
                               \<lparr>memoryToCreate :=
                                  Some [\<lparr> layer = str ''outer_personal'', key = str ''last_topic'',
                                          val = prompt inp \<rparr>]\<rparr>\<rparr>
                     else st)
              in (st1, Return (mkMessage inp st1))))))))))"

text \<open>\<^verbatim>\<open>(reader.result as string).split(',')[1]\<close>: \<open>None\<close> is \<^verbatim>\<open>undefined\<close>.\<close>

definition splitComma1 :: "jsstring \<Rightarrow> jsstring option" where
  "splitComma1 url =
     (case dropWhile (\<lambda>c. c \<noteq> 0x2C) url of
        [] \<Rightarrow> None
      | _ # rest \<Rightarrow> Some (takeWhile (\<lambda>c. c \<noteq> 0x2C) rest))"

text \<open>
  The loop over the files: each is read and put in front of the parts with
  \<^verbatim>\<open>unshift\<close>; a reader that fails rejects, which throws.
\<close>

fun readFiles ::
  "Env \<Rightarrow> File list \<Rightarrow> Part list \<Rightarrow> AgentState \<Rightarrow> AgentState \<times> (exn + Part list)" where
  "readFiles env [] userParts st = (st, Inr userParts)"
| "readFiles env (file # rest) userParts st =
     (case readAsDataURL env file of
        Inl e \<Rightarrow> (called (ReadAsDataURL file) st, Inl e)
      | Inr url \<Rightarrow>
          readFiles env rest (InlineData (splitComma1 url) (file_type file) # userParts)
            (called (ReadAsDataURL file) st))"

definition simpleRequest :: "Env \<Rightarrow> AgentInput \<Rightarrow> Ctx \<Rightarrow> Part list \<Rightarrow> Request" where
  "simpleRequest env inp ctx userParts =
     (let systemPrompt =
            autonomousInstruction env @ str ''\<newline>''
            @ replicate 20 0x20 @ str ''\<newline>''
            @ replicate 20 0x20 @ str ''[MEMORY]\<newline>''
            @ replicate 20 0x20 @ memoryContext ctx @ str ''\<newline>''
            @ replicate 20 0x20 @ str ''\<newline>''
            @ replicate 20 0x20 @ dateTimeContext ctx @ str ''\<newline>''
            @ replicate 20 0x20
      in \<lparr> model = str ''gemini-2.0-flash-exp'',
           contents = Turns (geminiHistory (history inp)
                             @ [\<lparr> role = str ''user'', parts = userParts \<rparr>]),
           config = Some \<lparr> systemInstruction = Some systemPrompt,
                           googleSearch = False,
                           responseModalities = None,
                           responseMimeType = None \<rparr> \<rparr>)"

definition execSIMPLE :: "Env \<Rightarrow> AgentInput \<Rightarrow> Ctx \<Rightarrow> AgentState \<Rightarrow> AgentState \<times> Flow" where
  "execSIMPLE env inp ctx st =
     (case readFiles env (case files inp of None \<Rightarrow> [] | Some fs \<Rightarrow> fs)
             [TextPart (currentPrompt st)] st of
           (st0, Inl e) \<Rightarrow> (st0, Throw e)
         | (st0, Inr userParts) \<Rightarrow>
             (let req = simpleRequest env inp ctx userParts;
                  st1 = called (GenerateContentStream req) st0
              in case generateContentStream env req of
                   Inl e \<Rightarrow> (st1, Throw e)
                 | Inr response \<Rightarrow>
                     (case foldl simpleChunk ([], st1) (chunks response) of
                        (generatedThisLoop, st2) \<Rightarrow>
                          (case failure response of
                             Some e \<Rightarrow> (st2, Throw e)
                           | None \<Rightarrow> tagDetection inp generatedThisLoop st2))))"

subsection \<open>The loop\<close>

text \<open>The \<^verbatim>\<open>switch (currentAction)\<close>; \<^verbatim>\<open>default\<close> is the case of \<open>SIMPLE\<close>.\<close>

definition execAction :: "Env \<Rightarrow> AgentInput \<Rightarrow> Ctx \<Rightarrow> AgentState \<Rightarrow> AgentState \<times> Flow" where
  "execAction env inp ctx st =
     (case currentAction st of
        SEARCH \<Rightarrow> execSEARCH env inp ctx st
      | DEEP_SEARCH \<Rightarrow> execDEEP_SEARCH env inp ctx st
      | THINK \<Rightarrow> execTHINK env inp ctx st
      | IMAGE \<Rightarrow> execIMAGE env inp ctx st
      | CANVAS \<Rightarrow> execCANVAS env inp ctx st
      | PROJECT \<Rightarrow> execPROJECT env inp ctx st
      | STUDY \<Rightarrow> execSTUDY env inp ctx st
      | SIMPLE \<Rightarrow> execSIMPLE env inp ctx st)"

text \<open>
  \<^verbatim>\<open>while (loopCount < MAX_LOOPS) { loopCount++; console.log(...); switch ... }\<close>
  followed by the \<^verbatim>\<open>return\<close> after the loop. The result is the final state with the
  message returned (\<open>Inr\<close>) or the exception that leaves the loop (\<open>Inl\<close>).
\<close>

definition logIteration :: "nat \<Rightarrow> AgentState \<Rightarrow> AgentState" where
  "logIteration loopCount st = st\<lparr>console := console st @ [(loopCount, currentAction st)]\<rparr>"

function agentLoop ::
  "Env \<Rightarrow> AgentInput \<Rightarrow> Ctx \<Rightarrow> nat \<Rightarrow> AgentState \<Rightarrow> AgentState \<times> (exn + Message)" where
  "agentLoop env inp ctx loopCount st =
     (if loopCount < MAX_LOOPS
      then (case execAction env inp ctx (logIteration (Suc loopCount) st) of
              (st1, Continue) \<Rightarrow> agentLoop env inp ctx (Suc loopCount) st1
            | (st1, Return m) \<Rightarrow> (st1, Inr m)
            | (st1, Throw e) \<Rightarrow> (st1, Inl e))
      else (st, Inr (mkMessage inp st)))"
  by pat_completeness auto
termination
  by (relation "measure (\<lambda>(env, inp, ctx, loopCount, st). MAX_LOOPS - loopCount)") auto

subsection \<open>The entry point\<close>

text \<open>
  The body of the \<^verbatim>\<open>try\<close>: the route, the memory context, the initial values of the
  variables, and the loop.
\<close>

definition allLayers :: "jsstring list" where
  "allLayers = [str ''inner_personal'', str ''outer_personal'', str ''interests'',
                str ''preferences'', str ''custom'', str ''codebase'',
                str ''aesthetic'', str ''project'']"

definition initialState :: "AgentInput \<Rightarrow> AgentState" where
  "initialState inp =
     (let fileCount = (case files inp of None \<Rightarrow> 0 | Some fs \<Rightarrow> length fs);
          routing0 = route (prompt inp) (ident (user inp)) (apiKey inp) fileCount
      in \<lparr> finalResponseText = [],
           metadataPayload = \<lparr> groundingMetadata = None, memoryToCreate = None \<rparr>,
           currentAction = action routing0,
           currentPrompt = prompt inp,
           routing = routing0,
           console = [], streamed = [],
           calls = [GetContext (ident (user inp)) allLayers] \<rparr>)"

definition tryBody :: "Env \<Rightarrow> AgentInput \<Rightarrow> AgentState \<times> (exn + Message)" where
  "tryBody env inp =
     (case getContext env (ident (user inp)) allLayers of
        Inl e \<Rightarrow> (initialState inp, Inl e)
      | Inr memoryContext' \<Rightarrow>
          agentLoop env inp
            \<lparr> memoryContext = memoryContext',
              dateTimeContext = str ''[CURRENT DATE & TIME]\<newline>'' @ timestamp env @ str ''\<newline>'' \<rparr>
            0 (initialState inp))"

text \<open>
  \<^verbatim>\<open>runAutonomousAgent\<close>: the message of the body, or in the \<^verbatim>\<open>catch\<close> the message
  made from the exception.
\<close>

definition runAutonomousAgent :: "Env \<Rightarrow> AgentInput \<Rightarrow> AgentExecutionResult" where
  "runAutonomousAgent env inp =
     (case snd (tryBody env inp) of
        Inr m \<Rightarrow> \<lparr> messages = [m] \<rparr>
      | Inl error \<Rightarrow>
          (let errorMessage = getUserFriendlyError env error
           in \<lparr> messages =
                  [\<lparr> groundingMetadata = None, memoryToCreate = None,
                     project_id = ident (project inp), chat_id = ident (chat inp),
                     sender = str ''ai'',
                     text = str ''An error occurred: '' @ errorMessage,
                     image_base64 = None, imageStatus = None \<rparr>] \<rparr>))"

section \<open>Notions used in the statements\<close>

text \<open>The text that the loop over a stream appends: the texts of its chunks that have one.\<close>

definition generatedText :: "Chunk list \<Rightarrow> jsstring" where
  "generatedText cs = concat (map (\<lambda>c. case truthyText c of None \<Rightarrow> [] | Some t \<Rightarrow> t) cs)"

text \<open>The exception with which a recorded call ends, if it throws.\<close>

definition thrownBy :: "Env \<Rightarrow> Call \<Rightarrow> exn option" where
  "thrownBy env c =
     (case c of
        GetContext u ls \<Rightarrow> (case getContext env u ls of Inl e \<Rightarrow> Some e | Inr _ \<Rightarrow> None)
      | ReadAsDataURL f \<Rightarrow> (case readAsDataURL env f of Inl e \<Rightarrow> Some e | Inr _ \<Rightarrow> None)
      | GenerateContentStream req \<Rightarrow>
          (case generateContentStream env req of Inl e \<Rightarrow> Some e | Inr response \<Rightarrow> failure response)
      | GenerateContent req \<Rightarrow> (case generateContent env req of Inl e \<Rightarrow> Some e | Inr _ \<Rightarrow> None)
      | DeepResearch q \<Rightarrow> (case snd (deepResearch env q) of Inl e \<Rightarrow> Some e | Inr _ \<Rightarrow> None)
      | IncrementThinkingCount u \<Rightarrow> incrementThinkingCount env u
      | GenerateImage p k m \<Rightarrow> (case generateImage env p k m of Inl e \<Rightarrow> Some e | Inr _ \<Rightarrow> None))"

fun isGenerateImage :: "Call \<Rightarrow> bool" where
  "isGenerateImage (GenerateImage p k m) = True"
| "isGenerateImage _ = False"

fun isModelCall :: "Call \<Rightarrow> bool" where
  "isModelCall (GenerateContentStream req) = True"
| "isModelCall (GenerateContent req) = True"
| "isModelCall _ = False"

fun flowExn :: "Flow \<Rightarrow> exn option" where
  "flowExn (Throw e) = Some e"
| "flowExn _ = None"

text \<open>
  Every call of \<open>cs\<close> that throws, image generation apart, throws the exception \<open>r\<close>.
\<close>

definition caught :: "Env \<Rightarrow> Call list \<Rightarrow> exn option \<Rightarrow> bool" where
  "caught env cs r =
     (\<forall>c \<in> set cs. \<forall>e. thrownBy env c = Some e \<longrightarrow> \<not> isGenerateImage c \<longrightarrow> r = Some e)"

text \<open>
  What an iteration in a tool mode leaves alone, how it ends, and what it calls.
\<close>

definition toolStep :: "Env \<Rightarrow> AgentInput \<Rightarrow> AgentState \<Rightarrow> AgentState \<times> Flow \<Rightarrow> bool" where
  "toolStep env inp st r =
     (case r of (st1, fl) \<Rightarrow>
        console st1 = console st
        \<and> memoryToCreate (metadataPayload st1) = memoryToCreate (metadataPayload st)
        \<and> fl \<noteq> Continue
        \<and> (\<forall>m. fl = Return m \<longrightarrow>
               project_id m = ident (project inp) \<and> chat_id m = ident (chat inp)
               \<and> sender m = str ''ai'' \<and> text m = finalResponseText st1
               \<and> groundingMetadata m = groundingMetadata (metadataPayload st1)
               \<and> memoryToCreate m = memoryToCreate (metadataPayload st1))
        \<and> (\<exists>new. calls st1 = calls st @ new \<and> caught env new (flowExn fl)
                   \<and> length (filter isModelCall new) \<le> 1))"

text \<open>
  The calls of one iteration in a tool mode, from the state at its start.
\<close>

definition toolCalls :: "Env \<Rightarrow> AgentInput \<Rightarrow> Ctx \<Rightarrow> AgentState \<Rightarrow> Call list" where
  "toolCalls env inp ctx st =
     (case currentAction st of
        SEARCH \<Rightarrow> [GenerateContentStream (searchRequest env ctx (currentPrompt st))]
      | DEEP_SEARCH \<Rightarrow> [DeepResearch (currentPrompt st)]
      | THINK \<Rightarrow>
          IncrementThinkingCount (ident (user inp))
          # (case incrementThinkingCount env (ident (user inp)) of
               None \<Rightarrow> [GenerateContentStream (thinkRequest env inp ctx (currentPrompt st))]
             | Some e \<Rightarrow> [])
      | IMAGE \<Rightarrow> [GenerateImage (imagePrompt st) (apiKey inp) (preferredImageModel inp)]
      | CANVAS \<Rightarrow> [GenerateContentStream (canvasRequest (currentPrompt st))]
      | PROJECT \<Rightarrow> [GenerateContent (projectRequest (currentPrompt st))]
      | STUDY \<Rightarrow> [GenerateContentStream (studyRequest (currentPrompt st))]
      | SIMPLE \<Rightarrow> [])"

text \<open>
  The citation chunks that a chunk of a stream holds:
  \<^verbatim>\<open>chunk.candidates?.[0]?.groundingMetadata?.groundingChunks\<close>.
\<close>

definition citations :: "Chunk \<Rightarrow> GroundingChunk list option" where
  "citations chunk =
     (case candidates chunk of
        None \<Rightarrow> None
      | Some [] \<Rightarrow> None
      | Some (candidate # _) \<Rightarrow>
          (case cand_groundingMetadata candidate of
             None \<Rightarrow> None
           | Some gm \<Rightarrow> groundingChunks gm))"

text \<open>The citation chunks \<open>gcs\<close> are all in the \<^verbatim>\<open>groundingMetadata\<close> of a payload.\<close>

definition carries :: "GroundingChunk list option \<Rightarrow> GroundingChunk list \<Rightarrow> bool" where
  "carries g gcs = (case g of None \<Rightarrow> False | Some every \<Rightarrow> set gcs \<subseteq> set every)"

text \<open>
  The requests whose streams are read for citations: the request of the search mode (the
  one with the search tool), for every chunk, and the request of the conversational mode
  (turns with a system instruction), for the chunks that have a text.
\<close>

definition readsCitations :: "Request \<Rightarrow> Chunk \<Rightarrow> bool" where
  "readsCitations req chunk =
     (case config req of
        None \<Rightarrow> False
      | Some c \<Rightarrow>
          googleSearch c
          \<or> (case contents req of
                Turns _ \<Rightarrow> truthyText chunk \<noteq> None
              | Prompt _ \<Rightarrow> False))"

text \<open>
  The text has an opening tag, then code units none of which is a line terminator, then
  the closing tag.
\<close>

definition hasPair :: "jsstring \<Rightarrow> jsstring \<Rightarrow> jsstring \<Rightarrow> bool" where
  "hasPair opening closing s =
     (\<exists>pre g post. s = pre @ opening @ g @ closing @ post
        \<and> (\<forall>c \<in> set g. \<not> isLineTerminator c))"

text \<open>The text has \<open>t\<close> somewhere.\<close>

definition hasText :: "jsstring \<Rightarrow> jsstring \<Rightarrow> bool" where
  "hasText t s = (\<exists>pre post. s = pre @ t @ post)"

text \<open>
  The text has, up to the case of ASCII letters, \<^verbatim>\<open><SEARCH>deep\<close>, then white space,
  then code units none of which is a line terminator, then \<^verbatim>\<open></SEARCH>\<close>.
\<close>

definition hasDeepSearch :: "jsstring \<Rightarrow> bool" where
  "hasDeepSearch s =
     (\<exists>pre opening w g closing post. s = pre @ opening @ w @ g @ closing @ post
        \<and> map asciiUpper opening = map asciiUpper (str ''<SEARCH>deep'')
        \<and> w \<noteq> [] \<and> (\<forall>c \<in> set w. isWhiteSpace c)
        \<and> (\<forall>c \<in> set g. \<not> isLineTerminator c)
        \<and> map asciiUpper closing = map asciiUpper (str ''</SEARCH>''))"

text \<open>
  What makes the tag scan choose a mode, the order in which the scan tries the modes, and
  the pair of tags of the six modes that have one.
\<close>

fun present :: "RouterAction \<Rightarrow> jsstring \<Rightarrow> bool" where
  "present DEEP_SEARCH s = (hasPair (str ''<DEEP>'') (str ''</DEEP>'') s \<or> hasDeepSearch s)"
| "present SEARCH s = hasPair (str ''<SEARCH>'') (str ''</SEARCH>'') s"
| "present THINK s = hasText (str ''<THINK>'') s"
| "present IMAGE s = hasPair (str ''<IMAGE>'') (str ''</IMAGE>'') s"
| "present PROJECT s = hasPair (str ''<PROJECT>'') (str ''</PROJECT>'') s"
| "present CANVAS s = hasPair (str ''<CANVAS>'') (str ''</CANVAS>'') s"
| "present STUDY s = hasPair (str ''<STUDY>'') (str ''</STUDY>'') s"
| "present SIMPLE s = False"

definition priority :: "RouterAction list" where
  "priority = [DEEP_SEARCH, SEARCH, THINK, IMAGE, PROJECT, CANVAS, STUDY]"

fun tagOf :: "RouterAction \<Rightarrow> (jsstring \<times> jsstring) option" where
  "tagOf DEEP_SEARCH = Some (str ''<DEEP>'', str ''</DEEP>'')"
| "tagOf SEARCH = Some (str ''<SEARCH>'', str ''</SEARCH>'')"
| "tagOf IMAGE = Some (str ''<IMAGE>'', str ''</IMAGE>'')"
| "tagOf PROJECT = Some (str ''<PROJECT>'', str ''</PROJECT>'')"
| "tagOf CANVAS = Some (str ''<CANVAS>'', str ''</CANVAS>'')"
| "tagOf STUDY = Some (str ''<STUDY>'', str ''</STUDY>'')"
| "tagOf THINK = None"
| "tagOf SIMPLE = None"

text \<open>No pattern of the tag scan matches the text.\<close>

definition noTag :: "jsstring \<Rightarrow> bool" where
  "noTag g =
     (deepMatch g = None \<and> searchMatch g = None \<and> thinkMatch g = None \<and> imageMatch g = None
      \<and> projectMatch g = None \<and> canvasMatch g = None \<and> studyMatch g = None)"

text \<open>The memory entry of the heuristic at the end of the conversational mode.\<close>

definition lastTopic :: "AgentInput \<Rightarrow> MemoryEntry" where
  "lastTopic inp = \<lparr> layer = str ''outer_personal'', key = str ''last_topic'', val = prompt inp \<rparr>"

text \<open>A history message with a text that is not blank.\<close>

definition nonBlank :: "Message \<Rightarrow> bool" where
  "nonBlank msg = (\<exists>c \<in> set (text msg). \<not> isWhiteSpace c)"

text \<open>
  The context that the body of the \<^verbatim>\<open>try\<close> gives to the loop when the memory service
  has answered \<open>mc\<close>: \<^verbatim>\<open>memoryContext\<close> and \<^verbatim>\<open>dateTimeContext\<close>.
\<close>

definition contextOf :: "Env \<Rightarrow> jsstring \<Rightarrow> Ctx" where
  "contextOf env mc =
     \<lparr> memoryContext = mc,
       dateTimeContext = str ''[CURRENT DATE & TIME]\<newline>'' @ timestamp env @ str ''\<newline>'' \<rparr>"

section \<open>A scripted environment\<close>

text \<open>
  An environment for concrete runs: the model answers a conversation with \<open>reply\<close> and
  any other request with a text that has one citation; image generation ends as \<open>img\<close>
  says; every other service succeeds.
\<close>

definition scriptedEnv :: "jsstring \<Rightarrow> exn + jsstring \<Rightarrow> Env" where
  "scriptedEnv reply img =
     \<lparr> autonomousInstruction = str ''You are Bubble.'',
       timestamp = str ''Monday'',
       getContext = (\<lambda>u ls. Inr (str ''{}'')),
       generateContentStream =
         (\<lambda>req. Inr \<lparr> chunks =
                        (case contents req of
                           Turns _ \<Rightarrow> [\<lparr> chunk_text = Some reply, candidates = None \<rparr>]
                         | Prompt _ \<Rightarrow>
                             [\<lparr> chunk_text = Some (str ''found''),
                                candidates = Some [\<lparr> cand_groundingMetadata =
                                                      Some \<lparr> groundingChunks = Some [str ''src''] \<rparr> \<rparr>] \<rparr>]),
                      failure = None \<rparr>),
       generateContent = (\<lambda>req. Inr (Some (str ''{}''))),
       deepResearch = (\<lambda>q. ([str ''reading''], Inr \<lparr> answer = str ''A'', sources = [str ''s1'', str ''s2''] \<rparr>)),
       incrementThinkingCount = (\<lambda>u. None),
       generateImage = (\<lambda>p k m. img),
       readAsDataURL = (\<lambda>f. Inr (str ''data:a/b;base64,QUJD'')),
       getUserFriendlyError = (\<lambda>e. case e of ErrorObject m \<Rightarrow> m | OtherValue v \<Rightarrow> v) \<rparr>"

definition historyMessage :: "string \<Rightarrow> string \<Rightarrow> Message" where
  "historyMessage who t =
     \<lparr> groundingMetadata = None, memoryToCreate = None, project_id = str ''p1'', chat_id = str ''c1'',
       sender = str who, text = str t, image_base64 = None, imageStatus = None \<rparr>"

definition demoInput :: AgentInput where
  "demoInput =
     \<lparr> prompt = str ''hi'', files = None, apiKey = str ''k'', project = \<lparr> ident = str ''p1'' \<rparr>,
       chat = \<lparr> ident = str ''c1'' \<rparr>,
       history = [historyMessage ''user'' ''hello'', historyMessage ''ai'' '' '',
                  historyMessage ''ai'' ''welcome''],
       user = \<lparr> ident = str ''u1'' \<rparr>, profile = None \<rparr>"

text \<open>The scripted environment with a model stream that breaks after its first chunk.\<close>

definition brokenStreamEnv :: Env where
  "brokenStreamEnv =
     (scriptedEnv (str ''ok'') (Inr (str ''QQ'')))
       \<lparr> generateContentStream :=
           (\<lambda>req. Inr \<lparr> chunks = [\<lparr> chunk_text = Some (str ''par''), candidates = None \<rparr>],
                        failure = Some (ErrorObject (str ''network'')) \<rparr>) \<rparr>"

text \<open>The model asks for an image, and image generation fails.\<close>

definition imageFailureEnv :: Env where
  "imageFailureEnv = scriptedEnv (str ''ok <IMAGE>cat</IMAGE>'') (Inl (ErrorObject (str ''quota'')))"

text \<open>The context, runs and states of the scripted environment that the examples use.\<close>

definition demoCtx :: Ctx where
  "demoCtx = \<lparr> memoryContext = str ''{}'',
               dateTimeContext = str ''[CURRENT DATE & TIME]\<newline>Monday\<newline>'' \<rparr>"

definition searchEnv :: Env where
  "searchEnv = scriptedEnv (str ''Let me look. <SEARCH>cats</SEARCH>'') (Inr (str ''QQ''))"

definition searchMessage :: Message where
  "searchMessage =
     \<lparr> groundingMetadata = Some [str ''src''], memoryToCreate = None,
       project_id = str ''p1'', chat_id = str ''c1'', sender = str ''ai'',
       text = str ''Let me look. found'', image_base64 = None, imageStatus = None \<rparr>"

definition thinkEnv :: Env where
  "thinkEnv = scriptedEnv (str ''<THINK>why</THINK>'') (Inr (str ''QQ''))"

definition chattyEnv :: Env where
  "chattyEnv =
     scriptedEnv (str ''Hello! I am Bubble, and I am happy to chat with you today.'')
       (Inr (str ''QQ''))"

text \<open>The state of the example at the tag scan, after a stream that generated \<open>g\<close>.\<close>

definition scanState :: "jsstring \<Rightarrow> AgentState" where
  "scanState g = (initialState demoInput)\<lparr>finalResponseText := g\<rparr>"

text \<open>Texts with tags, and the environments whose model replies with them.\<close>

definition twoTagsText :: jsstring where
  "twoTagsText = str ''<SEARCH>a</SEARCH><IMAGE>b</IMAGE>''"

definition twoTagsEnv :: Env where
  "twoTagsEnv = scriptedEnv twoTagsText (Inr (str ''QQ''))"

definition bareThinkEnv :: Env where
  "bareThinkEnv = scriptedEnv (str ''<THINK>'') (Inr (str ''QQ''))"

definition imageTagText :: jsstring where
  "imageTagText = str ''x<IMAGE>cat</IMAGE>y''"


definition imageTagEnv :: Env where
  "imageTagEnv = scriptedEnv imageTagText (Inr (str ''QQ''))"




section \<open>Frames of the steps\<close>

lemmas string_defs = str_def isLineTerminator_def isWhiteSpace_def trim_def asciiUpper_def
  cuMatches_def

lemmas scan_defs = pairRx_def deepSearchRx_def orElse_def whole_def group1_def reroute_def
  searchMatch_def deepMatch_def thinkMatch_def imageMatch_def projectMatch_def canvasMatch_def
  studyMatch_def tagDetection_def

lemmas step_defs = route_def MAX_LOOPS_def truthyText_def emit_def called_def appendText_def
  mkMessage_def captureGrounding_def textChunk_def searchChunk_def simpleChunk_def finish_def
  searchRequest_def execSEARCH_def execDEEP_SEARCH_def toContent_def firstPartText_def
  geminiHistory_def thinkRequest_def execTHINK_def imagePrompt_def preferredImageModel_def
  execIMAGE_def canvasRequest_def execCANVAS_def projectRequest_def execPROJECT_def
  studyRequest_def execSTUDY_def splitComma1_def simpleRequest_def execSIMPLE_def execAction_def
  logIteration_def allLayers_def initialState_def tryBody_def runAutonomousAgent_def

lemmas demo_defs = scriptedEnv_def historyMessage_def demoInput_def


lemmas eval_defs = scanState_def initialState_def route_def allLayers_def demo_defs string_defs
  scan_defs mkMessage_def Let_def

lemmas run_defs = demo_defs string_defs scan_defs step_defs agentLoop.simps Let_def

declare agentLoop.simps [simp del]

lemma emit_fields [simp]:
  "finalResponseText (emit x st) = finalResponseText st"
  "metadataPayload (emit x st) = metadataPayload st"
  "currentAction (emit x st) = currentAction st"
  "currentPrompt (emit x st) = currentPrompt st"
  "routing (emit x st) = routing st"
  "console (emit x st) = console st"
  "calls (emit x st) = calls st"
  by (simp_all add: emit_def)

lemma called_fields [simp]:
  "finalResponseText (called c st) = finalResponseText st"
  "metadataPayload (called c st) = metadataPayload st"
  "currentAction (called c st) = currentAction st"
  "currentPrompt (called c st) = currentPrompt st"
  "routing (called c st) = routing st"
  "console (called c st) = console st"
  "calls (called c st) = calls st @ [c]"
  by (simp_all add: called_def)

lemma appendText_fields [simp]:
  "finalResponseText (appendText t st) = finalResponseText st @ t"
  "metadataPayload (appendText t st) = metadataPayload st"
  "currentAction (appendText t st) = currentAction st"
  "currentPrompt (appendText t st) = currentPrompt st"
  "routing (appendText t st) = routing st"
  "console (appendText t st) = console st"
  "calls (appendText t st) = calls st"
  by (simp_all add: appendText_def)

lemma mkMessage_fields [simp]:
  "project_id (mkMessage inp st) = ident (project inp)"
  "chat_id (mkMessage inp st) = ident (chat inp)"
  "sender (mkMessage inp st) = str ''ai''"
  "text (mkMessage inp st) = finalResponseText st"
  "groundingMetadata (mkMessage inp st) = groundingMetadata (metadataPayload st)"
  "memoryToCreate (mkMessage inp st) = memoryToCreate (metadataPayload st)"
  "image_base64 (mkMessage inp st) = None"
  "imageStatus (mkMessage inp st) = None"
  by (simp_all add: mkMessage_def)

lemma textChunk_frame [simp]:
  "console (textChunk st c) = console st"
  "calls (textChunk st c) = calls st"
  "metadataPayload (textChunk st c) = metadataPayload st"
  by (simp_all add: textChunk_def split: option.splits)

lemma foldl_textChunk_frame [simp]:
  "console (foldl textChunk st cs) = console st"
  "calls (foldl textChunk st cs) = calls st"
  "metadataPayload (foldl textChunk st cs) = metadataPayload st"
  by (induction cs arbitrary: st) simp_all

lemma captureGrounding_memory [simp]:
  "memoryToCreate (captureGrounding c p) = memoryToCreate p"
  by (simp add: captureGrounding_def split: option.splits list.splits)

lemma searchChunk_frame [simp]:
  "console (searchChunk st c) = console st"
  "calls (searchChunk st c) = calls st"
  "memoryToCreate (metadataPayload (searchChunk st c)) = memoryToCreate (metadataPayload st)"
  by (simp_all add: searchChunk_def Let_def)

lemma foldl_searchChunk_frame [simp]:
  "console (foldl searchChunk st cs) = console st"
  "calls (foldl searchChunk st cs) = calls st"
  "memoryToCreate (metadataPayload (foldl searchChunk st cs)) = memoryToCreate (metadataPayload st)"
  by (induction cs arbitrary: st) simp_all

lemma progress_frame [simp]:
  "console (foldl (\<lambda>s msg. emit (f msg) s) st ms) = console st"
  "calls (foldl (\<lambda>s msg. emit (f msg) s) st ms) = calls st"
  "metadataPayload (foldl (\<lambda>s msg. emit (f msg) s) st ms) = metadataPayload st"
  by (induction ms arbitrary: st) simp_all

lemma caught_single:
  "caught env [c] r = (\<forall>e. thrownBy env c = Some e \<longrightarrow> \<not> isGenerateImage c \<longrightarrow> r = Some e)"
  by (simp add: caught_def)

lemma toolStep_finish:
  assumes "console st1 = console st"
    and "memoryToCreate (metadataPayload st1) = memoryToCreate (metadataPayload st)"
    and "calls st1 = calls st @ [GenerateContentStream req]"
    and "generateContentStream env req = Inr response"
  shows "toolStep env inp st (finish inp response st1)"
  using assms
  by (cases "failure response")
     (simp_all add: toolStep_def finish_def caught_single thrownBy_def)

lemma toolStep_SEARCH: "toolStep env inp st (execSEARCH env inp ctx st)"
proof (cases "generateContentStream env (searchRequest env ctx (currentPrompt st))")
  case (Inl e)
  then show ?thesis
    by (simp add: execSEARCH_def Let_def toolStep_def caught_single thrownBy_def)
next
  case (Inr response)
  then show ?thesis
    by (simp add: execSEARCH_def Let_def toolStep_finish)
qed


lemma toolStep_DEEP_SEARCH: "toolStep env inp st (execDEEP_SEARCH env inp ctx st)"
proof -
  obtain progress outcome where d: "deepResearch env (currentPrompt st) = (progress, outcome)"
    by (cases "deepResearch env (currentPrompt st)")
  show ?thesis
    using d
    by (cases outcome)
       (simp_all add: execDEEP_SEARCH_def Let_def toolStep_def caught_single thrownBy_def)
qed

lemma toolStep_THINK: "toolStep env inp st (execTHINK env inp ctx st)"
proof (cases "incrementThinkingCount env (ident (user inp))")
  case (Some e)
  then show ?thesis
    by (simp add: execTHINK_def Let_def toolStep_def caught_single thrownBy_def)
next
  case None
  note inc = this
  show ?thesis
  proof (cases "generateContentStream env (thinkRequest env inp ctx (currentPrompt st))")
    case (Inl e)
    with inc show ?thesis
      by (simp add: execTHINK_def Let_def toolStep_def caught_def thrownBy_def)
  next
    case (Inr response)
    with inc show ?thesis
      by (cases "failure response")
         (simp_all add: execTHINK_def Let_def toolStep_def finish_def caught_def thrownBy_def)
  qed
qed

lemma toolStep_IMAGE: "toolStep env inp st (execIMAGE env inp ctx st)"
  by (simp add: execIMAGE_def Let_def toolStep_def caught_single split: sum.splits)

lemma toolStep_CANVAS: "toolStep env inp st (execCANVAS env inp ctx st)"
proof (cases "generateContentStream env (canvasRequest (currentPrompt st))")
  case (Inl e)
  then show ?thesis
    by (simp add: execCANVAS_def Let_def toolStep_def caught_single thrownBy_def)
next
  case (Inr response)
  then show ?thesis
    by (simp add: execCANVAS_def Let_def toolStep_finish)
qed

lemma toolStep_PROJECT: "toolStep env inp st (execPROJECT env inp ctx st)"
  by (cases "generateContent env (projectRequest (currentPrompt st))")
     (simp_all add: execPROJECT_def Let_def toolStep_def caught_single thrownBy_def)

lemma toolStep_STUDY: "toolStep env inp st (execSTUDY env inp ctx st)"
proof (cases "generateContentStream env (studyRequest (currentPrompt st))")
  case (Inl e)
  then show ?thesis
    by (simp add: execSTUDY_def Let_def toolStep_def caught_single thrownBy_def)
next
  case (Inr response)
  then show ?thesis
    by (simp add: execSTUDY_def Let_def toolStep_finish)
qed

lemma toolStep_execAction:
  "currentAction st \<noteq> SIMPLE \<Longrightarrow> toolStep env inp st (execAction env inp ctx st)"
  by (cases "currentAction st")
     (simp_all add: execAction_def toolStep_SEARCH toolStep_DEEP_SEARCH toolStep_THINK
        toolStep_IMAGE toolStep_CANVAS toolStep_PROJECT toolStep_STUDY)


lemma captureGrounding_citations:
  "groundingMetadata (captureGrounding c p) =
     (case citations c of
        None \<Rightarrow> groundingMetadata p
      | Some gcs \<Rightarrow> Some ((case groundingMetadata p of None \<Rightarrow> [] | Some old \<Rightarrow> old) @ gcs))"
  by (simp add: captureGrounding_def citations_def split: option.splits list.splits)

lemma captureGrounding_carries:
  "carries (groundingMetadata p) gcs \<Longrightarrow> carries (groundingMetadata (captureGrounding c p)) gcs"
  by (auto simp add: captureGrounding_citations carries_def split: option.splits)

lemma captureGrounding_captures:
  "citations c = Some gcs \<Longrightarrow> carries (groundingMetadata (captureGrounding c p)) gcs"
  by (auto simp add: captureGrounding_citations carries_def split: option.splits)

lemma simpleChunk_result:
  "\<exists>st1. simpleChunk (g, st) c = (g @ generatedText [c], st1)
     \<and> finalResponseText st1 = finalResponseText st @ generatedText [c]
     \<and> console st1 = console st \<and> calls st1 = calls st
     \<and> currentAction st1 = currentAction st
     \<and> memoryToCreate (metadataPayload st1) = memoryToCreate (metadataPayload st)
     \<and> (\<forall>gcs. carries (groundingMetadata (metadataPayload st)) gcs
            \<longrightarrow> carries (groundingMetadata (metadataPayload st1)) gcs)
     \<and> (\<forall>gcs. truthyText c \<noteq> None \<longrightarrow> citations c = Some gcs
            \<longrightarrow> carries (groundingMetadata (metadataPayload st1)) gcs)"
  by (cases "truthyText c")
     (simp_all add: simpleChunk_def generatedText_def Let_def captureGrounding_carries
        captureGrounding_captures)

lemma generatedText_Cons: "generatedText (c # cs) = generatedText [c] @ generatedText cs"
  by (simp add: generatedText_def)

lemma foldl_simpleChunk_result:
  "\<exists>st1. foldl simpleChunk (g, st) cs = (g @ generatedText cs, st1)
     \<and> finalResponseText st1 = finalResponseText st @ generatedText cs
     \<and> console st1 = console st \<and> calls st1 = calls st
     \<and> currentAction st1 = currentAction st
     \<and> memoryToCreate (metadataPayload st1) = memoryToCreate (metadataPayload st)
     \<and> (\<forall>gcs. carries (groundingMetadata (metadataPayload st)) gcs
            \<longrightarrow> carries (groundingMetadata (metadataPayload st1)) gcs)
     \<and> (\<forall>c gcs. c \<in> set cs \<longrightarrow> truthyText c \<noteq> None \<longrightarrow> citations c = Some gcs
            \<longrightarrow> carries (groundingMetadata (metadataPayload st1)) gcs)"
proof (induction cs arbitrary: g st)
  case Nil
  show ?case by (simp add: generatedText_def)
next
  case (Cons c cs)
  obtain st1 where 1: "simpleChunk (g, st) c = (g @ generatedText [c], st1)"
    and f1: "finalResponseText st1 = finalResponseText st @ generatedText [c]"
      "console st1 = console st" "calls st1 = calls st" "currentAction st1 = currentAction st"
      "memoryToCreate (metadataPayload st1) = memoryToCreate (metadataPayload st)"
    and k1: "\<And>gcs. carries (groundingMetadata (metadataPayload st)) gcs
              \<Longrightarrow> carries (groundingMetadata (metadataPayload st1)) gcs"
    and c1: "\<And>gcs. truthyText c \<noteq> None \<Longrightarrow> citations c = Some gcs
              \<Longrightarrow> carries (groundingMetadata (metadataPayload st1)) gcs"
    using simpleChunk_result [of g st c] by blast
  obtain st2 where 2: "foldl simpleChunk (g @ generatedText [c], st1) cs
        = ((g @ generatedText [c]) @ generatedText cs, st2)"
    and f2: "finalResponseText st2 = finalResponseText st1 @ generatedText cs"
      "console st2 = console st1" "calls st2 = calls st1" "currentAction st2 = currentAction st1"
      "memoryToCreate (metadataPayload st2) = memoryToCreate (metadataPayload st1)"
    and k2: "\<And>gcs. carries (groundingMetadata (metadataPayload st1)) gcs
              \<Longrightarrow> carries (groundingMetadata (metadataPayload st2)) gcs"
    and c2: "\<And>c' gcs. c' \<in> set cs \<Longrightarrow> truthyText c' \<noteq> None \<Longrightarrow> citations c' = Some gcs
              \<Longrightarrow> carries (groundingMetadata (metadataPayload st2)) gcs"
    using Cons.IH [of "g @ generatedText [c]" st1] by blast
  have "foldl simpleChunk (g, st) (c # cs) = (g @ generatedText (c # cs), st2)"
    using 1 2 by (simp add: generatedText_Cons [of c cs])
  moreover have "finalResponseText st2 = finalResponseText st @ generatedText (c # cs)"
    using f1 f2 by (simp add: generatedText_Cons [of c cs])
  moreover have "\<forall>c' gcs. c' \<in> set (c # cs) \<longrightarrow> truthyText c' \<noteq> None \<longrightarrow> citations c' = Some gcs
            \<longrightarrow> carries (groundingMetadata (metadataPayload st2)) gcs"
    using c1 c2 k2 by auto
  ultimately show ?case
    using f1 f2 k1 k2 by auto
qed

lemma readFiles_frame:
  "\<exists>st1 r new. readFiles env fs ps st = (st1, r) \<and> console st1 = console st
     \<and> metadataPayload st1 = metadataPayload st \<and> finalResponseText st1 = finalResponseText st
     \<and> currentAction st1 = currentAction st
     \<and> calls st1 = calls st @ new \<and> filter isModelCall new = []
     \<and> caught env new (case r of Inl e \<Rightarrow> Some e | Inr _ \<Rightarrow> None)"
proof (induction fs arbitrary: ps st)
  case Nil
  show ?case by (simp add: caught_def)
next
  case (Cons f fs)
  show ?case
  proof (cases "readAsDataURL env f")
    case (Inl e)
    then show ?thesis by (simp add: caught_single thrownBy_def)
  next
    case (Inr url)
    from Cons.IH [of "InlineData (splitComma1 url) (file_type f) # ps" "called (ReadAsDataURL f) st"]
    obtain st1 r new where
      "readFiles env fs (InlineData (splitComma1 url) (file_type f) # ps) (called (ReadAsDataURL f) st) = (st1, r)"
      "console st1 = console st" "metadataPayload st1 = metadataPayload st"
      "finalResponseText st1 = finalResponseText st" "currentAction st1 = currentAction st"
      "calls st1 = calls st @ ReadAsDataURL f # new" "filter isModelCall new = []"
      "caught env new (case r of Inl e \<Rightarrow> Some e | Inr _ \<Rightarrow> None)"
      by auto
    with Inr show ?thesis
      by (auto simp add: caught_def thrownBy_def intro!: exI [of _ "ReadAsDataURL f # new"])
  qed
qed

lemma tagDetection_flow:
  assumes "tagDetection inp g st = (st1, fl)"
  shows "console st1 = console st \<and> calls st1 = calls st
    \<and> (fl = Continue \<and> currentAction st1 \<noteq> SIMPLE \<and> metadataPayload st1 = metadataPayload st
          \<and> \<not> noTag g
        \<or> fl = Return (mkMessage inp st1) \<and> noTag g \<and> finalResponseText st1 = finalResponseText st
          \<and> currentAction st1 = currentAction st
          \<and> groundingMetadata (metadataPayload st1) = groundingMetadata (metadataPayload st)
          \<and> memoryToCreate (metadataPayload st1) =
              (if length g > 50 then Some [lastTopic inp] else memoryToCreate (metadataPayload st)))"
  using assms
  by (auto simp add: tagDetection_def reroute_def Let_def lastTopic_def noTag_def
      split: option.splits if_splits)


lemma caught_append:
  "caught env (xs @ ys) r = (caught env xs r \<and> caught env ys r)"
  by (auto simp add: caught_def)

lemma caught_Nil [simp]: "caught env [] r"
  by (simp add: caught_def)

lemma caught_Cons:
  "caught env (c # cs) r =
     ((\<forall>e. thrownBy env c = Some e \<longrightarrow> \<not> isGenerateImage c \<longrightarrow> r = Some e) \<and> caught env cs r)"
  by (simp add: caught_def)

lemma caught_None_Some: "caught env xs None \<Longrightarrow> caught env xs r"
  by (simp add: caught_def)

lemma readFiles_routing:
  "routing (fst (readFiles env fs ps st)) = routing st"
  by (induction fs arbitrary: ps st) (simp_all split: sum.splits)

lemma foldl_simpleChunk_routing:
  "routing (snd (foldl simpleChunk gs cs)) = routing (snd gs)"
proof (induction cs arbitrary: gs)
  case Nil
  show ?case by simp
next
  case (Cons c cs)
  have "routing (snd (simpleChunk gs c)) = routing (snd gs)"
    by (cases gs) (simp add: simpleChunk_def Let_def split: option.splits)
  with Cons [of "simpleChunk gs c"] show ?case by simp
qed

lemma execSIMPLE_cases:
  obtains (thrown) e and st1 :: AgentState and new where
      "execSIMPLE env inp ctx st = (st1, Throw e)" "console st1 = console st"
      "calls st1 = calls st @ new" "caught env new (Some e)"
      "length (filter isModelCall new) \<le> 1"
      "\<forall>c \<in> set new. isModelCall c \<longrightarrow> (\<exists>ps. c = GenerateContentStream (simpleRequest env inp ctx ps))"
      "\<forall>c \<in> set new. isModelCall c \<longrightarrow> thrownBy env c = Some e"
  | (scanned) userParts and response :: Stream and st2 :: AgentState and new where
      "generateContentStream env (simpleRequest env inp ctx userParts) = Inr response"
      "failure response = None"
      "execSIMPLE env inp ctx st = tagDetection inp (generatedText (chunks response)) st2"
      "finalResponseText st2 = finalResponseText st @ generatedText (chunks response)"
      "console st2 = console st" "currentAction st2 = currentAction st"
      "memoryToCreate (metadataPayload st2) = memoryToCreate (metadataPayload st)"
      "calls st2 = calls st @ new @ [GenerateContentStream (simpleRequest env inp ctx userParts)]"
      "caught env new None" "filter isModelCall new = []"
      "\<forall>c gcs. c \<in> set (chunks response) \<longrightarrow> truthyText c \<noteq> None \<longrightarrow> citations c = Some gcs
          \<longrightarrow> carries (groundingMetadata (metadataPayload st2)) gcs"
      "routing st2 = routing st"
proof -
  let ?fs = "case files inp of None \<Rightarrow> [] | Some fs \<Rightarrow> fs"
  obtain st0 r new where rf: "readFiles env ?fs [TextPart (currentPrompt st)] st = (st0, r)"
    and f0: "console st0 = console st" "metadataPayload st0 = metadataPayload st"
      "finalResponseText st0 = finalResponseText st" "currentAction st0 = currentAction st"
      "calls st0 = calls st @ new" "filter isModelCall new = []"
      "caught env new (case r of Inl e \<Rightarrow> Some e | Inr _ \<Rightarrow> None)"
    using readFiles_frame [of env ?fs "[TextPart (currentPrompt st)]" st] by blast
  from f0 have nm: "\<forall>c \<in> set new. \<not> isModelCall c"
    by (simp add: filter_empty_conv)
  show thesis
  proof (cases r)
    case (Inl e)
    with rf have "execSIMPLE env inp ctx st = (st0, Throw e)"
      by (simp add: execSIMPLE_def)
    with f0 Inl nm show thesis by (intro thrown [of st0 e new]) simp_all
  next
    case (Inr userParts)
    let ?req = "simpleRequest env inp ctx userParts"
    let ?st1 = "called (GenerateContentStream ?req) st0"
    from Inr f0 have cn: "caught env new None" by simp
    have shape: "\<forall>c \<in> set (new @ [GenerateContentStream ?req]). isModelCall c
        \<longrightarrow> (\<exists>ps. c = GenerateContentStream (simpleRequest env inp ctx ps))"
      using nm by auto
    show thesis
    proof (cases "generateContentStream env ?req")
      case (Inl e)
      with rf Inr have "execSIMPLE env inp ctx st = (?st1, Throw e)"
        by (simp add: execSIMPLE_def Let_def)
      moreover have "caught env (new @ [GenerateContentStream ?req]) (Some e)"
        using cn Inl by (simp add: caught_append caught_single thrownBy_def caught_None_Some)
      moreover have "\<forall>c \<in> set (new @ [GenerateContentStream ?req]). isModelCall c
          \<longrightarrow> thrownBy env c = Some e"
        using nm Inl by (auto simp add: thrownBy_def)
      ultimately show thesis
        using f0 shape by (intro thrown [of ?st1 e "new @ [GenerateContentStream ?req]"]) simp_all
    next
      case (Inr response)
      note resp = this
      obtain st2 where fold: "foldl simpleChunk ([], ?st1) (chunks response) = (generatedText (chunks response), st2)"
        and f2: "finalResponseText st2 = finalResponseText ?st1 @ generatedText (chunks response)"
          "console st2 = console ?st1" "calls st2 = calls ?st1" "currentAction st2 = currentAction ?st1"
          "memoryToCreate (metadataPayload st2) = memoryToCreate (metadataPayload ?st1)"
        and c2: "\<forall>c gcs. c \<in> set (chunks response) \<longrightarrow> truthyText c \<noteq> None \<longrightarrow> citations c = Some gcs
            \<longrightarrow> carries (groundingMetadata (metadataPayload st2)) gcs"
        using foldl_simpleChunk_result [of "[]" ?st1 "chunks response"] by auto
      show thesis
      proof (cases "failure response")
        case (Some e)
        with rf \<open>r = Inr userParts\<close> resp fold
        have "execSIMPLE env inp ctx st = (st2, Throw e)"
          by (simp add: execSIMPLE_def Let_def)
        moreover have "caught env (new @ [GenerateContentStream ?req]) (Some e)"
          using cn resp Some by (simp add: caught_append caught_single thrownBy_def caught_None_Some)
        moreover have "\<forall>c \<in> set (new @ [GenerateContentStream ?req]). isModelCall c
            \<longrightarrow> thrownBy env c = Some e"
          using nm resp Some by (auto simp add: thrownBy_def)
        ultimately show thesis
          using f0 f2 shape by (intro thrown [of st2 e "new @ [GenerateContentStream ?req]"]) simp_all
      next
        case None
        with rf \<open>r = Inr userParts\<close> resp fold
        have "execSIMPLE env inp ctx st = tagDetection inp (generatedText (chunks response)) st2"
          by (simp add: execSIMPLE_def Let_def)
        moreover have "routing st2 = routing st"
          using readFiles_routing [of env ?fs "[TextPart (currentPrompt st)]" st] rf
            foldl_simpleChunk_routing [of "([], ?st1)" "chunks response"] fold
          by simp
        ultimately show thesis
          using f0 f2 cn resp None c2
          by (intro scanned [of userParts response st2 new]) simp_all
      qed
    qed
  qed
qed

lemma agentLoop_two_steps:
  "agentLoop env inp ctx 0 st =
     (case execAction env inp ctx (logIteration 1 st) of
        (st1, Continue) \<Rightarrow>
          (case execAction env inp ctx (logIteration 2 st1) of
             (st2, Continue) \<Rightarrow> (st2, Inr (mkMessage inp st2))
           | (st2, Return m) \<Rightarrow> (st2, Inr m)
           | (st2, Throw e) \<Rightarrow> (st2, Inl e))
      | (st1, Return m) \<Rightarrow> (st1, Inr m)
      | (st1, Throw e) \<Rightarrow> (st1, Inl e))"
proof -
  have 2: "agentLoop env inp ctx (Suc (Suc 0)) s = (s, Inr (mkMessage inp s))" for s
    by (subst agentLoop.simps) (simp add: MAX_LOOPS_def)
  have 1: "agentLoop env inp ctx (Suc 0) s =
     (case execAction env inp ctx (logIteration 2 s) of
             (st2, Continue) \<Rightarrow> (st2, Inr (mkMessage inp st2))
           | (st2, Return m) \<Rightarrow> (st2, Inr m)
           | (st2, Throw e) \<Rightarrow> (st2, Inl e))" for s
    by (subst agentLoop.simps) (simp add: MAX_LOOPS_def 2 numeral_2_eq_2 split: prod.splits Flow.splits)
  show ?thesis
    by (subst agentLoop.simps) (simp add: MAX_LOOPS_def 1 split: prod.splits Flow.splits)
qed


lemma initialState_fields [simp]:
  "finalResponseText (initialState inp) = []"
  "metadataPayload (initialState inp) = \<lparr> groundingMetadata = None, memoryToCreate = None \<rparr>"
  "currentAction (initialState inp) = SIMPLE"
  "currentPrompt (initialState inp) = prompt inp"
  "console (initialState inp) = []"
  "calls (initialState inp) = [GetContext (ident (user inp)) allLayers]"
  by (simp_all add: initialState_def route_def Let_def)

lemma logIteration_fields [simp]:
  "finalResponseText (logIteration n st) = finalResponseText st"
  "metadataPayload (logIteration n st) = metadataPayload st"
  "currentAction (logIteration n st) = currentAction st"
  "currentPrompt (logIteration n st) = currentPrompt st"
  "routing (logIteration n st) = routing st"
  "console (logIteration n st) = console st @ [(n, currentAction st)]"
  "calls (logIteration n st) = calls st"
  by (simp_all add: logIteration_def)

lemma tryBody_cases:
  obtains
    (noContext) e where
      "getContext env (ident (user inp)) allLayers = Inl e"
      "tryBody env inp = (initialState inp, Inl e)"
  | (simpleThrew) st1 :: AgentState and e new where
      "tryBody env inp = (st1, Inl e)"
      "console st1 = [(1, SIMPLE)]"
      "calls st1 = new" "caught env new (Some e)" "length (filter isModelCall new) \<le> 1"
      "\<forall>c \<in> set new. isModelCall c
          \<longrightarrow> (\<exists>(ctx :: Ctx) ps. c = GenerateContentStream (simpleRequest env inp ctx ps))"
  | (simpleReturned) response :: Stream and st2 st3 :: AgentState and ctx :: Ctx and userParts new where
      "tagDetection inp (generatedText (chunks response)) st2 = (st3, Return (mkMessage inp st3))"
      "tryBody env inp = (st3, Inr (mkMessage inp st3))"
      "finalResponseText st2 = generatedText (chunks response)"
      "noTag (generatedText (chunks response))"
      "memoryToCreate (metadataPayload st3) =
         (if length (generatedText (chunks response)) > 50 then Some [lastTopic inp] else None)"
      "console st3 = [(1, SIMPLE)]"
      "caught env (calls st3) None"
      "calls st3 = GetContext (ident (user inp)) allLayers # new
                   @ [GenerateContentStream (simpleRequest env inp ctx userParts)]"
      "filter isModelCall new = []"
      "generateContentStream env (simpleRequest env inp ctx userParts) = Inr response"
      "failure response = None"
      "\<forall>c gcs. c \<in> set (chunks response) \<longrightarrow> truthyText c \<noteq> None \<longrightarrow> citations c = Some gcs
          \<longrightarrow> carries (groundingMetadata (metadataPayload st3)) gcs"
  | (rerouted) response :: Stream and st2 st3 :: AgentState and ctx :: Ctx and st4 :: AgentState
      and fl userParts new where
      "tagDetection inp (generatedText (chunks response)) st2 = (st3, Continue)"
      "finalResponseText st2 = generatedText (chunks response)"
      "\<not> noTag (generatedText (chunks response))"
      "memoryToCreate (metadataPayload st3) = None"
      "console st3 = [(1, SIMPLE)]"
      "caught env (calls st3) None"
      "calls st3 = GetContext (ident (user inp)) allLayers # new
                   @ [GenerateContentStream (simpleRequest env inp ctx userParts)]"
      "filter isModelCall new = []"
      "generateContentStream env (simpleRequest env inp ctx userParts) = Inr response"
      "failure response = None"
      "\<forall>c gcs. c \<in> set (chunks response) \<longrightarrow> truthyText c \<noteq> None \<longrightarrow> citations c = Some gcs
          \<longrightarrow> carries (groundingMetadata (metadataPayload st3)) gcs"
      "currentAction st3 \<noteq> SIMPLE"
      "execAction env inp ctx (logIteration 2 st3) = (st4, fl)"
      "toolStep env inp (logIteration 2 st3) (st4, fl)"
      "tryBody env inp = (st4, case fl of Throw e \<Rightarrow> Inl e | Return m \<Rightarrow> Inr m | Continue \<Rightarrow> Inr (mkMessage inp st4))"
proof (cases "getContext env (ident (user inp)) allLayers")
  case (Inl e)
  then show thesis by (intro noContext [of e]) (simp_all add: tryBody_def)
next
  case (Inr mc)
  define ctx where "ctx = \<lparr> memoryContext = mc,
     dateTimeContext = str ''[CURRENT DATE & TIME]\<newline>'' @ timestamp env @ str ''\<newline>'' \<rparr>"
  let ?s1 = "logIteration (Suc 0) (initialState inp)"
  have gc: "thrownBy env (GetContext (ident (user inp)) allLayers) = None"
    using Inr by (simp add: thrownBy_def)
  have tb: "tryBody env inp = agentLoop env inp ctx 0 (initialState inp)"
    using Inr by (simp add: tryBody_def ctx_def)
  have ex1: "execAction env inp ctx ?s1 = execSIMPLE env inp ctx ?s1"
    by (simp add: execAction_def)
  show thesis
  proof (cases rule: execSIMPLE_cases [of env inp ctx ?s1])
    case (thrown e st1 new)
    then have "tryBody env inp = (st1, Inl e)"
      by (simp add: tb agentLoop_two_steps ex1)
    moreover have "\<forall>c \<in> set (GetContext (ident (user inp)) allLayers # new). isModelCall c
          \<longrightarrow> (\<exists>(ctx :: Ctx) ps. c = GenerateContentStream (simpleRequest env inp ctx ps))"
      using thrown(6) by fastforce
    ultimately show thesis
      using thrown(1-5) gc
      by (intro simpleThrew [of st1 e "GetContext (ident (user inp)) allLayers # new"])
         (simp_all add: caught_Cons)
  next
    case (scanned userParts response st2 new)
    let ?gen = "generatedText (chunks response)"
    let ?req = "simpleRequest env inp ctx userParts"
    obtain st3 fl where td: "tagDetection inp ?gen st2 = (st3, fl)"
      by (cases "tagDetection inp ?gen st2")
    note flow = tagDetection_flow [OF td]
    have calls3: "calls st3 = GetContext (ident (user inp)) allLayers # new @ [GenerateContentStream ?req]"
      using flow scanned by simp
    have c3: "caught env (calls st3) None"
      using scanned gc
      by (simp add: calls3 caught_append caught_Cons caught_single thrownBy_def)
    from flow consider (cont) "fl = Continue" "currentAction st3 \<noteq> SIMPLE"
        "metadataPayload st3 = metadataPayload st2" "\<not> noTag ?gen"
      | (ret) "fl = Return (mkMessage inp st3)" "noTag ?gen"
          "groundingMetadata (metadataPayload st3) = groundingMetadata (metadataPayload st2)"
          "memoryToCreate (metadataPayload st3) =
              (if length ?gen > 50 then Some [lastTopic inp] else memoryToCreate (metadataPayload st2))"
      by blast
    then show thesis
    proof cases
      case ret
      have "tryBody env inp = (st3, Inr (mkMessage inp st3))"
        using scanned td ret by (simp add: tb agentLoop_two_steps ex1)
      then show thesis
        using scanned td ret flow c3 calls3
        by (intro simpleReturned [of response st2 st3 new ctx userParts]) simp_all
    next
      case cont
      obtain st4 fl2 where e2: "execAction env inp ctx (logIteration 2 st3) = (st4, fl2)"
        by (cases "execAction env inp ctx (logIteration 2 st3)")
      have ts: "toolStep env inp (logIteration 2 st3) (st4, fl2)"
        using toolStep_execAction [of "logIteration 2 st3" env inp ctx] cont e2 by simp
      have "tryBody env inp = (st4, case fl2 of Throw e \<Rightarrow> Inl e | Return m \<Rightarrow> Inr m | Continue \<Rightarrow> Inr (mkMessage inp st4))"
        using scanned td cont e2
        by (simp add: tb agentLoop_two_steps ex1 numeral_2_eq_2 split: Flow.splits)
      then show thesis
        using scanned td cont flow c3 calls3 e2 ts
        by (intro rerouted [of response st2 st3 new ctx userParts st4 fl2]) simp_all
    qed
  qed
qed

section \<open>The loop bound\<close>

lemma execAction_console:
  "console (fst (execAction env inp ctx st)) = console st"
proof (cases "currentAction st = SIMPLE")
  case False
  then show ?thesis
    using toolStep_execAction [of st env inp ctx]
    by (cases "execAction env inp ctx st") (simp add: toolStep_def)
next
  case True
  then have e: "execAction env inp ctx st = execSIMPLE env inp ctx st"
    by (simp add: execAction_def)
  show ?thesis
  proof (cases rule: execSIMPLE_cases [of env inp ctx st])
    case (thrown e st1 new)
    then show ?thesis by (simp add: e)
  next
    case (scanned userParts response st2 new)
    obtain st3 fl where td: "tagDetection inp (generatedText (chunks response)) st2 = (st3, fl)"
      by (cases "tagDetection inp (generatedText (chunks response)) st2")
    from tagDetection_flow [OF td] scanned td show ?thesis by (simp add: e)
  qed
qed

lemma agentLoop_console_length:
  "length (console (fst (agentLoop env inp ctx loopCount st)))
     \<le> length (console st) + (MAX_LOOPS - loopCount)"
proof (induction env inp ctx loopCount st rule: agentLoop.induct)
  case (1 env inp ctx loopCount st)
  show ?case
  proof (cases "loopCount < MAX_LOOPS")
    case False
    then show ?thesis by (subst agentLoop.simps) simp
  next
    case True
    obtain st1 fl where e: "execAction env inp ctx (logIteration (Suc loopCount) st) = (st1, fl)"
      by (cases "execAction env inp ctx (logIteration (Suc loopCount) st)")
    have c1: "length (console st1) = Suc (length (console st))"
      using execAction_console [of env inp ctx "logIteration (Suc loopCount) st"] e by simp
    show ?thesis
    proof (cases fl)
      case Continue
      with "1.IH" [OF True e [symmetric]] True e c1 show ?thesis
        by (subst agentLoop.simps) simp
    next
      case (Return m)
      with True e c1 show ?thesis by (subst agentLoop.simps) simp
    next
      case (Throw x)
      with True e c1 show ?thesis by (subst agentLoop.simps) simp
    qed
  qed
qed

text \<open>
  Claim C2. The loop of \<^verbatim>\<open>runAutonomousAgent\<close> runs at most \<open>MAX_LOOPS = 2\<close>
  iterations: from any counter and state it adds at most \<open>MAX_LOOPS - loopCount\<close> lines
  to the console, one per iteration; a whole run logs at most two iterations, numbered
  1 and 2 by the counter, and calls the model at most twice, so at most once again after
  a tag.
\<close>

theorem loop_at_most_two_iterations:
  "MAX_LOOPS = 2
   \<and> length (console (fst (agentLoop env inp ctx loopCount st)))
       \<le> length (console st) + (MAX_LOOPS - loopCount)
   \<and> length (console (fst (tryBody env inp))) \<le> MAX_LOOPS
   \<and> map fst (console (fst (tryBody env inp)))
       = [1 ..< Suc (length (console (fst (tryBody env inp))))]
   \<and> length (filter isModelCall (calls (fst (tryBody env inp)))) \<le> 2"
proof -
  have "length (console (fst (tryBody env inp))) \<le> MAX_LOOPS
   \<and> map fst (console (fst (tryBody env inp)))
       = [1 ..< Suc (length (console (fst (tryBody env inp))))]
   \<and> length (filter isModelCall (calls (fst (tryBody env inp)))) \<le> 2"
  proof (cases rule: tryBody_cases [of env inp])
    case (noContext e)
    then show ?thesis by (simp add: MAX_LOOPS_def)
  next
    case (simpleThrew st1 e new)
    then show ?thesis by (simp add: MAX_LOOPS_def)
  next
    case (simpleReturned response st2 st3)
    then show ?thesis by (simp add: MAX_LOOPS_def)
  next
    case (rerouted response st2 st3 ctx st4 fl)
    from \<open>toolStep env inp (logIteration 2 st3) (st4, fl)\<close> obtain new where
      "console st4 = console st3 @ [(2, currentAction st3)]"
      "calls st4 = calls st3 @ new" "length (filter isModelCall new) \<le> 1"
      by (auto simp add: toolStep_def)
    with rerouted show ?thesis by (simp add: MAX_LOOPS_def upt_rec)
  qed
  then show ?thesis
    using agentLoop_console_length [of env inp ctx loopCount st] by (simp add: MAX_LOOPS_def)
qed



lemma foldl_searchChunk_carries:
  "carries (groundingMetadata (metadataPayload st)) gcs
     \<Longrightarrow> carries (groundingMetadata (metadataPayload (foldl searchChunk st cs))) gcs"
  by (induction cs arbitrary: st) (simp_all add: searchChunk_def Let_def captureGrounding_carries)

lemma foldl_searchChunk_captures:
  "c \<in> set cs \<Longrightarrow> citations c = Some gcs
     \<Longrightarrow> carries (groundingMetadata (metadataPayload (foldl searchChunk st cs))) gcs"
proof (induction cs arbitrary: st)
  case Nil
  then show ?case by simp
next
  case (Cons x xs)
  show ?case
  proof (cases "c = x")
    case True
    with Cons.prems have "carries (groundingMetadata (metadataPayload (searchChunk st x))) gcs"
      by (simp add: searchChunk_def Let_def captureGrounding_captures)
    then show ?thesis by (simp add: foldl_searchChunk_carries)
  next
    case False
    with Cons show ?thesis by simp
  qed
qed

lemma imagePrompt_frame [simp]:
  "imagePrompt (emit x st) = imagePrompt st"
  "imagePrompt (logIteration n st) = imagePrompt st"
  by (simp_all add: imagePrompt_def split: option.splits)

lemma tool_calls:
  "currentAction st \<noteq> SIMPLE
     \<Longrightarrow> calls (fst (execAction env inp ctx st)) = calls st @ toolCalls env inp ctx st"
  by (cases "currentAction st")
     (simp_all add: execAction_def toolCalls_def execSEARCH_def execDEEP_SEARCH_def execTHINK_def
        execIMAGE_def execCANVAS_def execPROJECT_def execSTUDY_def finish_def Let_def
        split: sum.splits option.splits prod.splits)

lemma tool_carries:
  "currentAction st \<noteq> SIMPLE \<Longrightarrow> carries (groundingMetadata (metadataPayload st)) gcs
     \<Longrightarrow> carries (groundingMetadata (metadataPayload (fst (execAction env inp ctx st)))) gcs"
  by (cases "currentAction st")
     (simp_all add: execAction_def execSEARCH_def execDEEP_SEARCH_def execTHINK_def
        execIMAGE_def execCANVAS_def execPROJECT_def execSTUDY_def finish_def Let_def
        foldl_searchChunk_carries
        split: sum.splits option.splits prod.splits)

lemma search_captures:
  assumes "currentAction st = SEARCH"
    and "execAction env inp ctx st = (st1, Return m)"
    and "generateContentStream env (searchRequest env ctx (currentPrompt st)) = Inr response"
    and "c \<in> set (chunks response)" and "citations c = Some gcs"
  shows "carries (groundingMetadata (metadataPayload st1)) gcs"
  using assms
  by (auto simp add: execAction_def execSEARCH_def finish_def Let_def foldl_searchChunk_captures
      split: option.splits)


section \<open>Exceptions\<close>

text \<open>
  Claim C3, amended. \<^verbatim>\<open>runAutonomousAgent\<close> never propagates an exception: it always
  returns exactly one message with the project id, the chat id and the sender
  \<^verbatim>\<open>'ai'\<close>. Every exception thrown by a call that the run makes (the memory context, a
  file reader, a model call or its stream, the thinking counter, deep research), image
  generation apart, leaves the body of the \<^verbatim>\<open>try\<close>; and for every exception that leaves
  it, the message has no metadata and the text \<^verbatim>\<open>'An error occurred: '\<close> followed by the
  user-friendly rendering of the exception.
\<close>

theorem exceptions_become_error_message:
  "(\<exists>m. messages (runAutonomousAgent env inp) = [m]
        \<and> project_id m = ident (project inp) \<and> chat_id m = ident (chat inp)
        \<and> sender m = str ''ai'')
   \<and> (\<forall>c \<in> set (calls (fst (tryBody env inp))). \<forall>e.
         thrownBy env c = Some e \<longrightarrow> \<not> isGenerateImage c \<longrightarrow>
           snd (tryBody env inp) = Inl e)
   \<and> (\<forall>e. snd (tryBody env inp) = Inl e \<longrightarrow>
         messages (runAutonomousAgent env inp) =
           [\<lparr> groundingMetadata = None, memoryToCreate = None,
              project_id = ident (project inp), chat_id = ident (chat inp),
              sender = str ''ai'',
              text = str ''An error occurred: '' @ getUserFriendlyError env e,
              image_base64 = None, imageStatus = None \<rparr>])"
proof (intro conjI)
  show "\<forall>e. snd (tryBody env inp) = Inl e \<longrightarrow>
         messages (runAutonomousAgent env inp) =
           [\<lparr> groundingMetadata = None, memoryToCreate = None,
              project_id = ident (project inp), chat_id = ident (chat inp),
              sender = str ''ai'',
              text = str ''An error occurred: '' @ getUserFriendlyError env e,
              image_base64 = None, imageStatus = None \<rparr>]"
    by (simp add: runAutonomousAgent_def)
  show "\<exists>m. messages (runAutonomousAgent env inp) = [m]
        \<and> project_id m = ident (project inp) \<and> chat_id m = ident (chat inp)
        \<and> sender m = str ''ai''"
  proof (cases rule: tryBody_cases [of env inp])
    case (noContext e)
    then show ?thesis by (simp add: runAutonomousAgent_def)
  next
    case (simpleThrew st1 e new)
    then show ?thesis by (simp add: runAutonomousAgent_def)
  next
    case (simpleReturned response st2 st3 ctx userParts new)
    then show ?thesis by (simp add: runAutonomousAgent_def)
  next
    case (rerouted response st2 st3 ctx st4 fl userParts new)
    from \<open>toolStep env inp (logIteration 2 st3) (st4, fl)\<close>
    have "fl \<noteq> Continue"
      and "\<forall>m. fl = Return m \<longrightarrow>
             project_id m = ident (project inp) \<and> chat_id m = ident (chat inp)
             \<and> sender m = str ''ai''"
      by (simp_all add: toolStep_def)
    then show ?thesis
      using rerouted(15)
      by (cases fl) (simp_all add: runAutonomousAgent_def)
  qed
  show "\<forall>c \<in> set (calls (fst (tryBody env inp))). \<forall>e.
         thrownBy env c = Some e \<longrightarrow> \<not> isGenerateImage c \<longrightarrow> snd (tryBody env inp) = Inl e"
  proof (cases rule: tryBody_cases [of env inp])
    case (noContext e)
    then show ?thesis by (simp add: thrownBy_def)
  next
    case (simpleThrew st1 e new)
    then show ?thesis by (simp add: caught_def)
  next
    case (simpleReturned response st2 st3 ctx userParts new)
    from \<open>caught env (calls st3) None\<close> \<open>tryBody env inp = (st3, Inr (mkMessage inp st3))\<close>
    show ?thesis by (simp add: caught_def)
  next
    case (rerouted response st2 st3 ctx st4 fl userParts new)
    from \<open>toolStep env inp (logIteration 2 st3) (st4, fl)\<close>
    obtain new2 where n2: "calls st4 = calls st3 @ new2" "caught env new2 (flowExn fl)"
      by (auto simp add: toolStep_def)
    have "caught env (calls st4) (flowExn fl)"
      using n2 \<open>caught env (calls st3) None\<close>
      by (simp add: caught_append caught_None_Some)
    then show ?thesis
      using rerouted(15) by (cases fl) (auto simp add: caught_def)
  qed
qed


text \<open>
  A run in which the stream of the model breaks: the exception of the stream becomes the
  error message.
\<close>

theorem exceptions_become_error_message_witness:
  "last (calls (fst (tryBody brokenStreamEnv demoInput)))
       \<in> set (calls (fst (tryBody brokenStreamEnv demoInput)))
   \<and> thrownBy brokenStreamEnv (last (calls (fst (tryBody brokenStreamEnv demoInput))))
       = Some (ErrorObject (str ''network''))
   \<and> \<not> isGenerateImage (last (calls (fst (tryBody brokenStreamEnv demoInput))))
   \<and> snd (tryBody brokenStreamEnv demoInput) = Inl (ErrorObject (str ''network''))
   \<and> map text (messages (runAutonomousAgent brokenStreamEnv demoInput))
       = [str ''An error occurred: network'']"
proof -
  have c: "last (calls (fst (tryBody brokenStreamEnv demoInput)))
       \<in> set (calls (fst (tryBody brokenStreamEnv demoInput)))"
    by (simp add: brokenStreamEnv_def run_defs)
  have t: "thrownBy brokenStreamEnv (last (calls (fst (tryBody brokenStreamEnv demoInput))))
       = Some (ErrorObject (str ''network''))"
    by (simp add: brokenStreamEnv_def thrownBy_def run_defs)
  have i: "\<not> isGenerateImage (last (calls (fst (tryBody brokenStreamEnv demoInput))))"
    by (simp add: brokenStreamEnv_def run_defs)
  have u: "getUserFriendlyError brokenStreamEnv (ErrorObject x) = x" for x
    by (simp add: brokenStreamEnv_def scriptedEnv_def)
  from exceptions_become_error_message [of brokenStreamEnv demoInput] c t i
  have s: "snd (tryBody brokenStreamEnv demoInput) = Inl (ErrorObject (str ''network''))"
    by blast
  with exceptions_become_error_message [of brokenStreamEnv demoInput]
  have "messages (runAutonomousAgent brokenStreamEnv demoInput) =
           [\<lparr> groundingMetadata = None, memoryToCreate = None,
              project_id = ident (project demoInput), chat_id = ident (chat demoInput),
              sender = str ''ai'',
              text = str ''An error occurred: '' @ getUserFriendlyError brokenStreamEnv (ErrorObject (str ''network'')),
              image_base64 = None, imageStatus = None \<rparr>]"
    by blast
  then have "map text (messages (runAutonomousAgent brokenStreamEnv demoInput))
       = [str ''An error occurred: network'']"
    by (simp add: u str_def)
  with c t i s show ?thesis by blast
qed

text \<open>
  Claim C3 as stated fails for an exception of image generation: it is thrown inside the
  body, and the message returned is not the error message but the text so far with a
  note.
\<close>

theorem image_exception_counterexample:
  "GenerateImage (str ''cat'') (str ''k'') None \<in> set (calls (fst (tryBody imageFailureEnv demoInput)))
   \<and> thrownBy imageFailureEnv (GenerateImage (str ''cat'') (str ''k'') None)
       = Some (ErrorObject (str ''quota''))
   \<and> map text (messages (runAutonomousAgent imageFailureEnv demoInput))
       = [str ''ok \<newline>\<newline>(Image generation failed: quota)'']
   \<and> map text (messages (runAutonomousAgent imageFailureEnv demoInput))
       \<noteq> [str ''An error occurred: '' @ getUserFriendlyError imageFailureEnv (ErrorObject (str ''quota''))]"
  by (simp add: imageFailureEnv_def thrownBy_def run_defs)


section \<open>The history sent to the model\<close>

lemma trim_empty_iff: "trim s = [] \<longleftrightarrow> (\<forall>c \<in> set s. isWhiteSpace c)"
proof
  assume "\<forall>c \<in> set s. isWhiteSpace c"
  then show "trim s = []" by (auto simp add: trim_def dest: set_dropWhileD)
next
  assume t: "trim s = []"
  show "\<forall>c \<in> set s. isWhiteSpace c"
  proof (rule ccontr)
    assume "\<not> (\<forall>c \<in> set s. isWhiteSpace c)"
    then have ne: "dropWhile isWhiteSpace s \<noteq> []" by (simp add: dropWhile_eq_Nil_conv)
    then have h: "\<not> isWhiteSpace (hd (dropWhile isWhiteSpace s))"
      by (rule hd_dropWhile)
    from t have "\<forall>c \<in> set (dropWhile isWhiteSpace s). isWhiteSpace c"
      by (simp add: trim_def dropWhile_eq_Nil_conv)
    with ne h show False by (cases "dropWhile isWhiteSpace s") simp_all
  qed
qed

lemma geminiHistory_filter:
  "geminiHistory h = map toContent (filter nonBlank h)"
  by (induction h) (auto simp add: geminiHistory_def toContent_def firstPartText_def
      trim_empty_iff nonBlank_def)

lemma request_contents [simp]:
  "contents (searchRequest env ctx p) = Prompt (str ''User Query: '' @ p)"
  "\<exists>q. contents (canvasRequest p) = Prompt q"
  "\<exists>q. contents (studyRequest p) = Prompt q"
  "\<exists>t. contents (thinkRequest env inp ctx p)
        = Turns (geminiHistory (history inp) @ [\<lparr> role = str ''user'', parts = [TextPart t] \<rparr>])"
  "contents (simpleRequest env inp ctx ps)
        = Turns (geminiHistory (history inp) @ [\<lparr> role = str ''user'', parts = ps \<rparr>])"
  by (simp_all add: searchRequest_def canvasRequest_def studyRequest_def thinkRequest_def
      simpleRequest_def Let_def)

lemma toolCalls_turns:
  assumes "GenerateContentStream req \<in> set (toolCalls env inp ctx st)"
    and "contents req = Turns cs"
  shows "\<exists>t. cs = geminiHistory (history inp) @ [\<lparr> role = str ''user'', parts = [TextPart t] \<rparr>]"
proof (cases "currentAction st")
  case SEARCH
  with assms show ?thesis by (auto simp add: toolCalls_def)
next
  case THINK
  with assms request_contents(4) [of env inp ctx "currentPrompt st"] show ?thesis
    by (auto simp add: toolCalls_def split: option.splits)
next
  case CANVAS
  with assms request_contents(2) [of "currentPrompt st"] show ?thesis
    by (auto simp add: toolCalls_def)
next
  case STUDY
  with assms request_contents(3) [of "currentPrompt st"] show ?thesis
    by (auto simp add: toolCalls_def)
qed (use assms in \<open>simp_all add: toolCalls_def\<close>)

text \<open>
  Claim C9. The history is mapped to the turns of a request in order, a sender
  \<^verbatim>\<open>'user'\<close> to the role \<^verbatim>\<open>'user'\<close> and every other sender to \<^verbatim>\<open>'model'\<close>, and
  exactly the messages whose text has a code unit that is not white space are kept. Every
  request of a run that sends turns (the conversational and the thinking mode) sends
  these turns, followed by one turn of the user.
\<close>

theorem history_sent_to_model:
  "geminiHistory h = map toContent (filter (\<lambda>msg. \<exists>c \<in> set (text msg). \<not> isWhiteSpace c) h)
   \<and> role (toContent msg) = (if sender msg = str ''user'' then str ''user'' else str ''model'')
   \<and> parts (toContent msg) = [TextPart (text msg)]
   \<and> (\<forall>req cs. GenerateContentStream req \<in> set (calls (fst (tryBody env inp)))
          \<longrightarrow> contents req = Turns cs
          \<longrightarrow> (\<exists>ps. cs = map toContent
                             (filter (\<lambda>msg. \<exists>c \<in> set (text msg). \<not> isWhiteSpace c) (history inp))
                           @ [\<lparr> role = str ''user'', parts = ps \<rparr>]))"
proof -
  have g: "geminiHistory h = map toContent (filter (\<lambda>msg. \<exists>c \<in> set (text msg). \<not> isWhiteSpace c) h)" for h
    using geminiHistory_filter [of h] by (simp add: nonBlank_def [abs_def])
  have simple: "\<exists>ps. cs = geminiHistory (history inp) @ [\<lparr> role = str ''user'', parts = ps \<rparr>]"
    if "contents (simpleRequest env inp ctx ps) = Turns cs" for ctx ps cs
    using that by auto
  have "\<exists>ps. cs = geminiHistory (history inp) @ [\<lparr> role = str ''user'', parts = ps \<rparr>]"
    if c: "GenerateContentStream req \<in> set (calls (fst (tryBody env inp)))"
      and t: "contents req = Turns cs" for req cs
  proof (cases rule: tryBody_cases [of env inp])
    case (noContext e)
    with c show ?thesis by simp
  next
    case (simpleThrew st1 e new)
    with c have "\<exists>(ctx :: Ctx) ps. req = simpleRequest env inp ctx ps"
      by fastforce
    with t simple show ?thesis by blast
  next
    case (simpleReturned response st2 st3 ctx userParts new)
    from \<open>filter isModelCall new = []\<close> have "GenerateContentStream req \<notin> set new"
      by (auto simp add: filter_empty_conv)
    with c simpleReturned(2,8) have "req = simpleRequest env inp ctx userParts" by auto
    with t simple show ?thesis by blast
  next
    case (rerouted response st2 st3 ctx st4 fl userParts new)
    from \<open>filter isModelCall new = []\<close> have n: "GenerateContentStream req \<notin> set new"
      by (auto simp add: filter_empty_conv)
    have "calls st4 = calls st3 @ toolCalls env inp ctx (logIteration 2 st3)"
      using tool_calls [of "logIteration 2 st3" env inp ctx] rerouted(12,13) by simp
    with c rerouted(7,15) n
    consider "req = simpleRequest env inp ctx userParts"
      | "GenerateContentStream req \<in> set (toolCalls env inp ctx (logIteration 2 st3))"
      by auto
    then show ?thesis
    proof cases
      case 1
      with t simple show ?thesis by blast
    next
      case 2
      from toolCalls_turns [OF 2 t] show ?thesis by blast
    qed
  qed
  then show ?thesis
    by (simp add: g toContent_def)
qed


text \<open>
  The history of the example has a blank message, which is left out of the turns of the
  thinking request.
\<close>

theorem history_sent_to_model_witness:
  "GenerateContentStream (thinkRequest thinkEnv demoInput demoCtx (str ''why''))
      \<in> set (calls (fst (tryBody thinkEnv demoInput)))
   \<and> (\<exists>ps. contents (thinkRequest thinkEnv demoInput demoCtx (str ''why''))
        = Turns [\<lparr> role = str ''user'', parts = [TextPart (str ''hello'')] \<rparr>,
                 \<lparr> role = str ''model'', parts = [TextPart (str ''welcome'')] \<rparr>,
                 \<lparr> role = str ''user'', parts = ps \<rparr>])"
proof -
  let ?req = "thinkRequest thinkEnv demoInput demoCtx (str ''why'')"
  have c: "GenerateContentStream ?req \<in> set (calls (fst (tryBody thinkEnv demoInput)))"
    by (simp add: thinkEnv_def demoCtx_def run_defs)
  obtain cs where t: "contents ?req = Turns cs"
    by (simp add: thinkRequest_def Let_def)
  from history_sent_to_model [of "[]" "historyMessage ''user'' ''hello''" thinkEnv demoInput] c t
  obtain ps where "cs = map toContent
      (filter (\<lambda>msg. \<exists>c \<in> set (text msg). \<not> isWhiteSpace c) (history demoInput))
      @ [\<lparr> role = str ''user'', parts = ps \<rparr>]"
    by blast
  then have "cs = [\<lparr> role = str ''user'', parts = [TextPart (str ''hello'')] \<rparr>,
                 \<lparr> role = str ''model'', parts = [TextPart (str ''welcome'')] \<rparr>,
                 \<lparr> role = str ''user'', parts = ps \<rparr>]"
    by (simp add: demo_defs string_defs toContent_def)
  with c t show ?thesis by simp
qed


section \<open>The message returned\<close>

lemma readsCitations_shapes:
  "readsCitations (searchRequest env ctx p) chunk"
  "\<not> readsCitations (thinkRequest env inp ctx p) chunk"
  "\<not> readsCitations (canvasRequest p) chunk"
  "\<not> readsCitations (studyRequest p) chunk"
  "readsCitations (simpleRequest env inp ctx ps) chunk = (truthyText chunk \<noteq> None)"
  by (simp_all add: readsCitations_def searchRequest_def thinkRequest_def canvasRequest_def
      studyRequest_def simpleRequest_def Let_def)

text \<open>
  Claim C5. When the body returns without an exception, the result is exactly one
  message, with the project id, the chat id, the sender \<^verbatim>\<open>'ai'\<close>, the accumulated
  response text of the final state and the \<^verbatim>\<open>groundingMetadata\<close> of the final payload;
  and that list holds the citation chunks of every chunk that the run read for
  citations: each chunk of the stream of the search mode, and each chunk with a text of
  the stream of the conversational mode.
\<close>

theorem returned_message_carries_text_and_citations:
  assumes "snd (tryBody env inp) = Inr m"
  shows "messages (runAutonomousAgent env inp) = [m]
    \<and> project_id m = ident (project inp) \<and> chat_id m = ident (chat inp) \<and> sender m = str ''ai''
    \<and> text m = finalResponseText (fst (tryBody env inp))
    \<and> groundingMetadata m = groundingMetadata (metadataPayload (fst (tryBody env inp)))
    \<and> (\<forall>req response chunk gcs.
          GenerateContentStream req \<in> set (calls (fst (tryBody env inp)))
          \<longrightarrow> generateContentStream env req = Inr response
          \<longrightarrow> chunk \<in> set (chunks response) \<longrightarrow> readsCitations req chunk
          \<longrightarrow> citations chunk = Some gcs
          \<longrightarrow> carries (groundingMetadata m) gcs)"
proof -
  have one: "messages (runAutonomousAgent env inp) = [m]"
    using assms by (simp add: runAutonomousAgent_def)
  show ?thesis
  proof (cases rule: tryBody_cases [of env inp])
    case (noContext e)
    with assms show ?thesis by simp
  next
    case (simpleThrew st1 e new)
    with assms show ?thesis by simp
  next
    case (simpleReturned response st2 st3 ctx userParts new)
    with assms have m: "m = mkMessage inp st3" by simp
    have "carries (groundingMetadata m) gcs"
      if c: "GenerateContentStream req \<in> set (calls (fst (tryBody env inp)))"
        and r: "generateContentStream env req = Inr response'"
        and k: "chunk \<in> set (chunks response')" "readsCitations req chunk"
          "citations chunk = Some gcs" for req response' chunk gcs
    proof -
      from \<open>filter isModelCall new = []\<close> have "GenerateContentStream req \<notin> set new"
        by (auto simp add: filter_empty_conv)
      with c simpleReturned(2,8) have q: "req = simpleRequest env inp ctx userParts" by auto
      with r simpleReturned(10) have "response' = response" by simp
      with k q simpleReturned(12) show ?thesis
        by (simp add: m readsCitations_shapes)
    qed
    with one m simpleReturned(2) show ?thesis by simp
  next
    case (rerouted response st2 st3 ctx st4 fl userParts new)
    from assms rerouted(15)
    have "(case fl of Throw e \<Rightarrow> Inl e | Return m \<Rightarrow> Inr m
             | Continue \<Rightarrow> Inr (mkMessage inp st4)) = Inr m"
      by simp
    moreover from \<open>toolStep env inp (logIteration 2 st3) (st4, fl)\<close>
    have "fl \<noteq> Continue" by (simp add: toolStep_def)
    ultimately have fl: "fl = Return m" by (cases fl) simp_all
    with \<open>toolStep env inp (logIteration 2 st3) (st4, fl)\<close>
    have m: "project_id m = ident (project inp)" "chat_id m = ident (chat inp)"
        "sender m = str ''ai''" "text m = finalResponseText st4"
        "groundingMetadata m = groundingMetadata (metadataPayload st4)"
      by (simp_all add: toolStep_def)
    have calls4: "calls st4 = calls st3 @ toolCalls env inp ctx (logIteration 2 st3)"
      using tool_calls [of "logIteration 2 st3" env inp ctx] rerouted(12,13) by simp
    have keep: "carries (groundingMetadata (metadataPayload st4)) gcs"
      if "carries (groundingMetadata (metadataPayload st3)) gcs" for gcs
      using tool_carries [of "logIteration 2 st3" gcs env inp ctx] rerouted(12,13) that by simp
    have "carries (groundingMetadata m) gcs"
      if c: "GenerateContentStream req \<in> set (calls (fst (tryBody env inp)))"
        and r: "generateContentStream env req = Inr response'"
        and k: "chunk \<in> set (chunks response')" "readsCitations req chunk"
          "citations chunk = Some gcs" for req response' chunk gcs
    proof -
      from \<open>filter isModelCall new = []\<close> have "GenerateContentStream req \<notin> set new"
        by (auto simp add: filter_empty_conv)
      with c calls4 rerouted(7,15)
      consider "req = simpleRequest env inp ctx userParts"
        | "GenerateContentStream req \<in> set (toolCalls env inp ctx (logIteration 2 st3))"
        by auto
      then show ?thesis
      proof cases
        case 1
        with r rerouted(9) have "response' = response" by simp
        with k 1 rerouted(11) have "carries (groundingMetadata (metadataPayload st3)) gcs"
          by (simp add: readsCitations_shapes)
        then show ?thesis by (simp add: m keep)
      next
        case 2
        show ?thesis
        proof (cases "currentAction st3")
          case SEARCH
          with 2 have q: "req = searchRequest env ctx (currentPrompt st3)"
            by (simp add: toolCalls_def)
          from search_captures [of "logIteration 2 st3" env inp ctx st4 m response' chunk gcs]
            SEARCH rerouted(13) fl q r k
          show ?thesis by (simp add: m)
        next
          case THINK
          with 2 k show ?thesis
            by (auto simp add: toolCalls_def readsCitations_shapes split: option.splits)
        next
          case CANVAS
          with 2 k show ?thesis by (auto simp add: toolCalls_def readsCitations_shapes)
        next
          case STUDY
          with 2 k show ?thesis by (auto simp add: toolCalls_def readsCitations_shapes)
        qed (use 2 in \<open>simp_all add: toolCalls_def\<close>)
      qed
    qed
    with one m rerouted(15) show ?thesis by simp
  qed
qed


text \<open>
  A run that switches to the search mode: the message carries the citation of the search
  stream.
\<close>

theorem returned_message_carries_text_and_citations_witness:
  "snd (tryBody searchEnv demoInput) = Inr searchMessage
   \<and> messages (runAutonomousAgent searchEnv demoInput) = [searchMessage]
   \<and> text searchMessage = finalResponseText (fst (tryBody searchEnv demoInput))
   \<and> carries (groundingMetadata searchMessage) [str ''src'']"
proof -
  let ?req = "searchRequest searchEnv demoCtx (str ''cats'')"
  let ?chunk = "\<lparr> chunk_text = Some (str ''found''),
      candidates = Some [\<lparr> cand_groundingMetadata = Some \<lparr> groundingChunks = Some [str ''src''] \<rparr> \<rparr>] \<rparr>"
  let ?response = "\<lparr> chunks = [?chunk], failure = None \<rparr>"
  have h: "snd (tryBody searchEnv demoInput) = Inr searchMessage"
    by (simp add: searchEnv_def searchMessage_def run_defs)
  have c: "GenerateContentStream ?req \<in> set (calls (fst (tryBody searchEnv demoInput)))"
    by (simp add: searchEnv_def demoCtx_def run_defs)
  have r: "generateContentStream searchEnv ?req = Inr ?response"
    by (simp add: searchEnv_def scriptedEnv_def searchRequest_def)
  have k: "?chunk \<in> set (chunks ?response)" "readsCitations ?req ?chunk"
    "citations ?chunk = Some [str ''src'']"
    by (simp_all add: readsCitations_def searchRequest_def citations_def)
  from returned_message_carries_text_and_citations [OF h] c r k
  show ?thesis using h by blast
qed



section \<open>The memory heuristic\<close>

text \<open>
  Claim C10. The message of a run has a \<^verbatim>\<open>memoryToCreate\<close> entry, and then the single
  record with layer \<^verbatim>\<open>'outer_personal'\<close>, key \<^verbatim>\<open>'last_topic'\<close> and the original prompt
  as value, if and only if the run returns from its only iteration, in the conversational
  mode, no pattern of the tag scan matches the text generated in it, and that text is
  longer than 50 code units.
\<close>

theorem memoryToCreate_iff:
  "\<exists>m. messages (runAutonomousAgent env inp) = [m]
     \<and> (memoryToCreate m = None
        \<or> memoryToCreate m
            = Some [\<lparr> layer = str ''outer_personal'', key = str ''last_topic'', val = prompt inp \<rparr>])
     \<and> (memoryToCreate m \<noteq> None \<longleftrightarrow>
          (\<exists>req response.
              snd (tryBody env inp) = Inr m
              \<and> console (fst (tryBody env inp)) = [(1, SIMPLE)]
              \<and> GenerateContentStream req \<in> set (calls (fst (tryBody env inp)))
              \<and> generateContentStream env req = Inr response
              \<and> noTag (generatedText (chunks response))
              \<and> length (generatedText (chunks response)) > 50))"
proof (cases rule: tryBody_cases [of env inp])
  case (noContext e)
  then show ?thesis by (simp add: runAutonomousAgent_def)
next
  case (simpleThrew st1 e new)
  then show ?thesis by (simp add: runAutonomousAgent_def)
next
  case (simpleReturned response st2 st3 ctx userParts new)
  let ?m = "mkMessage inp st3"
  have 1: "messages (runAutonomousAgent env inp) = [?m]"
    using simpleReturned(2) by (simp add: runAutonomousAgent_def)
  have 2: "memoryToCreate ?m =
      (if length (generatedText (chunks response)) > 50 then Some [lastTopic inp] else None)"
    using simpleReturned(5) by simp
  from \<open>filter isModelCall new = []\<close> have "GenerateContentStream req \<notin> set new" for req
    by (auto simp add: filter_empty_conv)
  then have only: "GenerateContentStream req \<in> set (calls st3)
      \<longleftrightarrow> req = simpleRequest env inp ctx userParts" for req
    using simpleReturned(8) by auto
  have 3: "(\<exists>req response'.
              GenerateContentStream req \<in> set (calls st3)
              \<and> generateContentStream env req = Inr response'
              \<and> noTag (generatedText (chunks response'))
              \<and> length (generatedText (chunks response')) > 50)
       \<longleftrightarrow> length (generatedText (chunks response)) > 50"
    using simpleReturned(4,10) by (auto simp add: only)
  show ?thesis
    using 1 2 3 simpleReturned(2,6) by (simp add: lastTopic_def)
next
  case (rerouted response st2 st3 ctx st4 fl userParts new)
  from \<open>toolStep env inp (logIteration 2 st3) (st4, fl)\<close>
  have ts: "fl \<noteq> Continue" "console st4 = console st3 @ [(2, currentAction st3)]"
    "memoryToCreate (metadataPayload st4) = memoryToCreate (metadataPayload st3)"
    "\<forall>m. fl = Return m \<longrightarrow> memoryToCreate m = memoryToCreate (metadataPayload st4)"
    by (simp_all add: toolStep_def)
  show ?thesis
  proof (cases fl)
    case Continue
    with ts show ?thesis by simp
  next
    case (Return m)
    with ts rerouted(4,15) show ?thesis
      by (simp add: runAutonomousAgent_def)
  next
    case (Throw e)
    with rerouted(15) show ?thesis by (simp add: runAutonomousAgent_def)
  qed
qed


text \<open>A conversational run with a reply of more than 50 code units and no tag.\<close>

theorem memoryToCreate_iff_witness:
  "50 < length (str ''Hello! I am Bubble, and I am happy to chat with you today.'')
   \<and> noTag (str ''Hello! I am Bubble, and I am happy to chat with you today.'')
   \<and> console (fst (tryBody chattyEnv demoInput)) = [(1, SIMPLE)]
   \<and> map memoryToCreate (messages (runAutonomousAgent chattyEnv demoInput))
       = [Some [\<lparr> layer = str ''outer_personal'', key = str ''last_topic'', val = str ''hi'' \<rparr>]]"
proof -
  let ?reply = "str ''Hello! I am Bubble, and I am happy to chat with you today.''"
  let ?req = "simpleRequest chattyEnv demoInput demoCtx [TextPart (str ''hi'')]"
  let ?response = "\<lparr> chunks = [\<lparr> chunk_text = Some ?reply, candidates = None \<rparr>], failure = None \<rparr>"
  have len: "50 < length ?reply" by (simp add: str_def)
  have nt: "noTag ?reply"
    by (simp add: noTag_def scan_defs string_defs)
  have con: "console (fst (tryBody chattyEnv demoInput)) = [(1, SIMPLE)]"
    by (simp add: chattyEnv_def run_defs)
  have c: "GenerateContentStream ?req \<in> set (calls (fst (tryBody chattyEnv demoInput)))"
    by (simp add: chattyEnv_def demoCtx_def run_defs)
  have r: "generateContentStream chattyEnv ?req = Inr ?response"
    by (simp add: chattyEnv_def scriptedEnv_def simpleRequest_def Let_def)
  have g: "generatedText (chunks ?response) = ?reply"
    by (simp add: generatedText_def truthyText_def str_def)
  obtain m0 where s: "snd (tryBody chattyEnv demoInput) = Inr m0"
    by (simp add: chattyEnv_def run_defs)
  then have one: "messages (runAutonomousAgent chattyEnv demoInput) = [m0]"
    by (simp add: runAutonomousAgent_def)
  from memoryToCreate_iff [of chattyEnv demoInput] one
  have alt: "memoryToCreate m0 = None
        \<or> memoryToCreate m0
            = Some [\<lparr> layer = str ''outer_personal'', key = str ''last_topic'', val = prompt demoInput \<rparr>]"
    and iff: "memoryToCreate m0 \<noteq> None \<longleftrightarrow>
          (\<exists>req response.
              snd (tryBody chattyEnv demoInput) = Inr m0
              \<and> console (fst (tryBody chattyEnv demoInput)) = [(1, SIMPLE)]
              \<and> GenerateContentStream req \<in> set (calls (fst (tryBody chattyEnv demoInput)))
              \<and> generateContentStream chattyEnv req = Inr response
              \<and> noTag (generatedText (chunks response))
              \<and> length (generatedText (chunks response)) > 50)"
    by auto
  have "memoryToCreate m0 \<noteq> None"
    unfolding iff using s con c r nt len
    by (intro exI [of _ ?req] exI [of _ ?response]) (simp only: g simp_thms)
  with alt have "memoryToCreate m0
      = Some [\<lparr> layer = str ''outer_personal'', key = str ''last_topic'', val = str ''hi'' \<rparr>]"
    by (simp add: demoInput_def)
  with one len nt con show ?thesis by simp
qed


section \<open>The matcher\<close>

lemma litAt_length: "litAt ic p s \<Longrightarrow> length p \<le> length s"
  by (induction ic p s rule: litAt.induct) simp_all

lemma litAt_append: "litAt ic p s \<Longrightarrow> litAt ic p (take (length p) s @ t)"
  by (induction ic p s rule: litAt.induct) simp_all

lemma litAt_False: "litAt False p s \<longleftrightarrow> (\<exists>t. s = p @ t)"
  by (induction "False" p s rule: litAt.induct) (auto simp add: cuMatches_def)

lemma litAt_False_append [simp]: "litAt False p (p @ t)"
  by (simp add: litAt_False)

lemma matchAt_length: "matchAt ic r s = Some (n, G) \<Longrightarrow> n \<le> length s"
proof (induction ic r s arbitrary: n G rule: matchAt.induct)
  case (1 ic s)
  then show ?case by simp
next
  case (2 ic l r s)
  then show ?case
    by (fastforce dest: litAt_length split: if_splits option.splits)
next
  case (3 ic r)
  then show ?case by simp
next
  case (4 ic r c cs)
  then show ?case
    by (auto split: if_splits option.splits)
next
  case (5 ic r)
  then show ?case by (auto split: option.splits)
next
  case (6 ic r c cs)
  then show ?case
    by (auto split: if_splits option.splits)
qed

lemma matchAt_Group_Some:
  "matchAt ic (Group # r) s = Some (n, G) \<Longrightarrow> G \<noteq> None"
proof (induction s arbitrary: n G)
  case Nil
  then show ?case by (auto split: option.splits)
next
  case (Cons c cs)
  then show ?case by (auto split: option.splits if_splits)
qed

lemma matchAt_extend:
  "matchAt ic r s = Some (n, G) \<Longrightarrow> matchAt ic r (take n s @ t) \<noteq> None"
proof (induction ic r s arbitrary: n G rule: matchAt.induct)
  case (1 ic s)
  then show ?case by simp
next
  case (2 ic l r s)
  from "2.prems" obtain n' where l: "litAt ic l s"
    and m: "matchAt ic r (drop (length l) s) = Some (n', G)" and n: "n = length l + n'"
    by (auto split: if_splits option.splits)
  from l have ll: "length l \<le> length s" by (rule litAt_length)
  have t: "take n s = take (length l) s @ take n' (drop (length l) s)"
    by (simp add: n take_add)
  have "matchAt ic r (take n' (drop (length l) s) @ t) \<noteq> None"
    using "2.IH" [OF l m] .
  moreover have "litAt ic l (take n s @ t)"
    using litAt_append [OF l, of "take n' (drop (length l) s) @ t"] by (simp add: t)
  moreover have "drop (length l) (take n s @ t) = take n' (drop (length l) s) @ t"
    using ll by (simp add: t)
  ultimately show ?case by auto
next
  case (3 ic r)
  then show ?case by simp
next
  case (4 ic r c cs)
  from "4.prems" have w: "isWhiteSpace c" by (auto split: if_splits)
  show ?case
  proof (cases "matchAt ic (WsPlus # r) cs")
    case (Some a)
    obtain n' G' where a: "a = (n', G')" by (cases a)
    with Some "4.prems" w have n: "n = Suc n'" by simp
    from "4.IH"(1) [OF w] Some a have "matchAt ic (WsPlus # r) (take n' cs @ t) \<noteq> None" by simp
    with w n show ?thesis by (auto split: option.splits)
  next
    case None
    with "4.prems" w obtain n' where m: "matchAt ic r cs = Some (n', G)" and n: "n = Suc n'"
      by (auto split: option.splits)
    from "4.IH"(2) [OF w None m] have "matchAt ic r (take n' cs @ t) \<noteq> None" .
    with w n show ?thesis by (auto split: option.splits)
  qed
next
  case (5 ic r)
  from "5.prems" obtain b where m: "matchAt ic r [] = Some (n, b)"
    by (auto split: option.splits)
  from "5.IH" [OF m] obtain x where "matchAt ic r t = Some x" by auto
  then show ?case by (cases t) (auto split: option.splits prod.splits)
next
  case (6 ic r c cs)
  show ?case
  proof (cases "matchAt ic r (c # cs)")
    case (Some a)
    obtain n' G' where a: "a = (n', G')" by (cases a)
    with Some "6.prems" have n: "n = n'" by simp
    from "6.IH"(1) Some a have "matchAt ic r (take n' (c # cs) @ t) \<noteq> None" by simp
    then obtain b where b: "matchAt ic r (take n' (c # cs) @ t) = Some b" by auto
    show ?thesis
    proof (cases "take n' (c # cs) @ t")
      case Nil
      with b n show ?thesis by (auto split: option.splits prod.splits)
    next
      case (Cons x xs)
      with b n show ?thesis by (auto split: option.splits prod.splits)
    qed
  next
    case None
    with "6.prems" obtain n' G' where lt: "\<not> isLineTerminator c"
      and m: "matchAt ic (Group # r) cs = Some (n', G')" and n: "n = Suc n'"
      by (auto split: option.splits if_splits)
    from "6.IH"(2) [OF None lt m]
    have "matchAt ic (Group # r) (take n' cs @ t) \<noteq> None" .
    then obtain n2 G2 where 2: "matchAt ic (Group # r) (take n' cs @ t) = Some (n2, G2)" by auto
    show ?thesis
      using lt n 2 by (cases "matchAt ic r (c # take n' cs @ t)") auto
  qed
qed


lemma matchAt_Nil_pattern [simp]: "matchAt ic [Lit c] s = (if litAt ic c s then Some (length c, None) else None)"
  by simp

text \<open>the lazy group followed by a closing literal\<close>

lemma lazy_sound:
  "matchAt ic [Group, Lit c] s = Some (n, G) \<Longrightarrow>
     \<exists>g. G = Some g \<and> n = length g + length c \<and> g = take (length g) s
        \<and> (\<forall>x \<in> set g. \<not> isLineTerminator x)
        \<and> litAt ic c (drop (length g) s)
        \<and> (\<forall>k < length g. \<not> litAt ic c (drop k s))"
proof (induction s arbitrary: n G)
  case Nil
  then show ?case by (auto split: if_splits)
next
  case (Cons x xs)
  show ?case
  proof (cases "litAt ic c (x # xs)")
    case True
    with Cons.prems show ?thesis by auto
  next
    case False
    with Cons.prems obtain n' G' where lt: "\<not> isLineTerminator x"
      and m: "matchAt ic [Group, Lit c] xs = Some (n', G')" and n: "n = Suc n'"
      and G: "G = map_option ((#) x) G'"
      by (auto split: if_splits option.splits)
    from Cons.IH [OF m] obtain g where g: "G' = Some g" "n' = length g + length c"
      "g = take (length g) xs" "\<forall>y \<in> set g. \<not> isLineTerminator y"
      "litAt ic c (drop (length g) xs)" "\<forall>k < length g. \<not> litAt ic c (drop k xs)"
      by blast
    have "\<forall>k < length (x # g). \<not> litAt ic c (drop k (x # xs))"
    proof (intro allI impI)
      fix k assume "k < length (x # g)"
      then show "\<not> litAt ic c (drop k (x # xs))"
        using False g(6) by (cases k) auto
    qed
    moreover have "x # g = take (length (x # g)) (x # xs)"
      using g(3) by simp
    ultimately show ?thesis
      using g lt n G by (intro exI [of _ "x # g"]) auto
  qed
qed

lemma lazy_complete:
  "\<forall>x \<in> set g. \<not> isLineTerminator x \<Longrightarrow> litAt ic c t
     \<Longrightarrow> matchAt ic [Group, Lit c] (g @ t) \<noteq> None"
proof (induction g)
  case Nil
  then show ?case by (cases t) auto
next
  case (Cons x g)
  then show ?case by (auto split: option.splits)
qed


lemma rxMatch_None: "rxMatch ic r s = None \<longleftrightarrow> (\<forall>k \<le> length s. matchAt ic r (drop k s) = None)"
proof (induction s)
  case Nil
  show ?case by (auto split: option.splits)
next
  case (Cons c cs)
  have "(\<forall>k \<le> length (c # cs). matchAt ic r (drop k (c # cs)) = None)
      \<longleftrightarrow> matchAt ic r (c # cs) = None \<and> (\<forall>k \<le> length cs. matchAt ic r (drop k cs) = None)"
  proof
    assume a: "\<forall>k \<le> length (c # cs). matchAt ic r (drop k (c # cs)) = None"
    then have "matchAt ic r (drop 0 (c # cs)) = None" by blast
    moreover have "matchAt ic r (drop k cs) = None" if "k \<le> length cs" for k
      using a [rule_format, of "Suc k"] that by simp
    ultimately show "matchAt ic r (c # cs) = None \<and> (\<forall>k \<le> length cs. matchAt ic r (drop k cs) = None)"
      by simp
  next
    assume a: "matchAt ic r (c # cs) = None \<and> (\<forall>k \<le> length cs. matchAt ic r (drop k cs) = None)"
    show "\<forall>k \<le> length (c # cs). matchAt ic r (drop k (c # cs)) = None"
    proof (intro allI impI)
      fix k assume "k \<le> length (c # cs)"
      with a show "matchAt ic r (drop k (c # cs)) = None" by (cases k) auto
    qed
  qed
  with Cons show ?case by (auto split: option.splits)
qed

lemma rxMatch_Some:
  assumes "rxMatch ic r s = Some (m0, G)"
  shows "\<exists>pre post. s = pre @ m0 @ post
      \<and> matchAt ic r (m0 @ post) = Some (length m0, G)
      \<and> (\<forall>k < length pre. matchAt ic r (drop k s) = None)
      \<and> removeFirst m0 s = pre @ post"
  using assms
proof (induction s)
  case Nil
  then obtain n where m: "matchAt ic r [] = Some (n, G)" and e: "m0 = []"
    by (auto split: option.splits)
  from matchAt_length [OF m] have "n = 0" by simp
  with m e show ?case by simp
next
  case (Cons c cs)
  show ?case
  proof (cases "matchAt ic r (c # cs)")
    case (Some a)
    obtain n G' where a: "a = (n, G')" by (cases a)
    with Some Cons.prems have m0: "m0 = take n (c # cs)" and G: "G' = G" by simp_all
    from Some a have n: "n \<le> length (c # cs)" by (auto dest: matchAt_length)
    let ?post = "drop n (c # cs)"
    have s: "c # cs = m0 @ ?post" by (simp add: m0)
    have l: "length m0 = n" using n by (simp add: m0)
    have "removeFirst m0 (c # cs) = ?post"
      using litAt_False_append [of m0 ?post] s l by simp
    with Some a G s l show ?thesis
      by (intro exI [of _ "[]"] exI [of _ ?post]) simp
  next
    case None
    with Cons.prems have "rxMatch ic r cs = Some (m0, G)" by simp
    from Cons.IH [OF this] obtain pre post where p: "cs = pre @ m0 @ post"
      "matchAt ic r (m0 @ post) = Some (length m0, G)"
      "\<forall>k < length pre. matchAt ic r (drop k cs) = None"
      "removeFirst m0 cs = pre @ post"
      by blast
    have left: "\<forall>k < length (c # pre). matchAt ic r (drop k (c # cs)) = None"
    proof (intro allI impI)
      fix k assume "k < length (c # pre)"
      with None p(3) show "matchAt ic r (drop k (c # cs)) = None" by (cases k) auto
    qed
    have "\<not> litAt False m0 (c # cs)"
    proof
      assume "litAt False m0 (c # cs)"
      then obtain t where t: "c # cs = m0 @ t" by (auto simp add: litAt_False)
      from matchAt_extend [OF p(2), of t] have "matchAt ic r (m0 @ t) \<noteq> None" by simp
      with t None show False by simp
    qed
    then have "removeFirst m0 (c # cs) = c # pre @ post"
      using p(4) by simp
    with p left show ?thesis
      by (intro exI [of _ "c # pre"] exI [of _ post]) simp
  qed
qed


lemma same_length_split: "a @ b = c @ d \<Longrightarrow> length a = length c \<Longrightarrow> a = c \<and> b = d"
  by simp

lemma litAt_True:
  "litAt True p s \<longleftrightarrow> (\<exists>a t. s = a @ t \<and> map asciiUpper a = map asciiUpper p)"
proof (induction "True" p s rule: litAt.induct)
  case (1 s)
  show ?case by simp
next
  case (2 p ps)
  show ?case by simp
next
  case (3 p ps c cs)
  show ?case
  proof
    assume "litAt True (p # ps) (c # cs)"
    with 3 obtain a t where "cs = a @ t" "map asciiUpper a = map asciiUpper ps"
      and "asciiUpper p = asciiUpper c"
      by (auto simp add: cuMatches_def)
    then show "\<exists>a t. c # cs = a @ t \<and> map asciiUpper a = map asciiUpper (p # ps)"
      by (intro exI [of _ "c # a"] exI [of _ t]) simp
  next
    assume "\<exists>a t. c # cs = a @ t \<and> map asciiUpper a = map asciiUpper (p # ps)"
    then obtain a t where a: "c # cs = a @ t" "map asciiUpper a = map asciiUpper (p # ps)"
      by blast
    then obtain a' where "a = c # a'" "cs = a' @ t" "asciiUpper c = asciiUpper p"
      "map asciiUpper a' = map asciiUpper ps"
      by (cases a) auto
    with 3 show "litAt True (p # ps) (c # cs)"
      by (auto simp add: cuMatches_def)
  qed
qed

lemma ws_sound:
  "matchAt ic (WsPlus # r) s = Some (n, G) \<Longrightarrow>
     \<exists>w t n'. s = w @ t \<and> w \<noteq> [] \<and> (\<forall>c \<in> set w. isWhiteSpace c)
        \<and> matchAt ic r t = Some (n', G) \<and> n = length w + n'"
proof (induction s arbitrary: n)
  case Nil
  then show ?case by simp
next
  case (Cons c cs)
  from Cons.prems have w: "isWhiteSpace c" by (auto split: if_splits)
  show ?case
  proof (cases "matchAt ic (WsPlus # r) cs")
    case (Some a)
    obtain n1 G1 where a: "a = (n1, G1)" by (cases a)
    with Some Cons.prems w have e: "n = Suc n1" "G1 = G" by simp_all
    from Cons.IH [of n1] Some a e obtain w' t n' where
      "cs = w' @ t" "w' \<noteq> []" "\<forall>c \<in> set w'. isWhiteSpace c"
      "matchAt ic r t = Some (n', G)" "n1 = length w' + n'"
      by auto
    with w e show ?thesis
      by (intro exI [of _ "c # w'"] exI [of _ t] exI [of _ n']) simp
  next
    case None
    with Cons.prems w obtain n' where "matchAt ic r cs = Some (n', G)" "n = Suc n'"
      by (auto split: option.splits)
    with w show ?thesis
      by (intro exI [of _ "[c]"] exI [of _ cs] exI [of _ n']) simp
  qed
qed

lemma ws_complete:
  "w \<noteq> [] \<Longrightarrow> \<forall>c \<in> set w. isWhiteSpace c \<Longrightarrow> matchAt ic r t \<noteq> None
     \<Longrightarrow> matchAt ic (WsPlus # r) (w @ t) \<noteq> None"
proof (induction w)
  case Nil
  then show ?case by simp
next
  case (Cons c w)
  show ?case
  proof (cases "w = []")
    case True
    with Cons.prems show ?thesis by (auto split: option.splits)
  next
    case False
    with Cons show ?thesis by (auto split: option.splits)
  qed
qed

lemma lt_not_whitespace: "isWhiteSpace y \<Longrightarrow> \<not> cuMatches ic 0x3C y"
  by (auto simp add: isWhiteSpace_def isLineTerminator_def cuMatches_def asciiUpper_def
      word_le_nat_alt word_less_nat_alt unat_sub split: if_splits)

lemma ws_greedy:
  assumes "matchAt ic [WsPlus, Group, Lit (c0 # cs)] s = Some (n, G)"
    and "\<forall>y. isWhiteSpace y \<longrightarrow> \<not> cuMatches ic c0 y"
  shows "\<exists>w t n'. s = w @ t \<and> w \<noteq> [] \<and> (\<forall>c \<in> set w. isWhiteSpace c)
        \<and> takeWhile isWhiteSpace t = []
        \<and> matchAt ic [Group, Lit (c0 # cs)] t = Some (n', G) \<and> n = length w + n'"
  using assms(1)
proof (induction s arbitrary: n)
  case Nil
  then show ?case by simp
next
  case (Cons x xs)
  let ?r = "[Group, Lit (c0 # cs)]"
  from Cons.prems have w: "isWhiteSpace x" by (auto split: if_splits)
  show ?case
  proof (cases "matchAt ic (WsPlus # ?r) xs")
    case (Some a)
    obtain n1 G1 where a: "a = (n1, G1)" by (cases a)
    with Some Cons.prems w have e: "n = Suc n1" "G1 = G" by simp_all
    from Cons.IH [of n1] Some a e obtain w' t n' where
      "xs = w' @ t" "w' \<noteq> []" "\<forall>c \<in> set w'. isWhiteSpace c" "takeWhile isWhiteSpace t = []"
      "matchAt ic ?r t = Some (n', G)" "n1 = length w' + n'"
      by auto
    with w e show ?thesis
      by (intro exI [of _ "x # w'"] exI [of _ t] exI [of _ n']) simp
  next
    case None
    with Cons.prems w obtain n' where m: "matchAt ic ?r xs = Some (n', G)" and n: "n = Suc n'"
      by (auto split: option.splits)
    have "takeWhile isWhiteSpace xs = []"
    proof (cases xs)
      case Nil
      then show ?thesis by simp
    next
      case (Cons y ys)
      show ?thesis
      proof (rule ccontr)
        assume "takeWhile isWhiteSpace xs \<noteq> []"
        with Cons have wy: "isWhiteSpace y" by (auto split: if_splits)
        with assms(2) have nl: "\<not> litAt ic (c0 # cs) (y # ys)" by simp
        from None Cons wy have "matchAt ic ?r ys = None"
          by (auto split: option.splits)
        moreover from m Cons nl have "matchAt ic ?r ys \<noteq> None"
          by (auto split: option.splits if_splits)
        ultimately show False by simp
      qed
    qed
    with m n w show ?thesis
      by (intro exI [of _ "[x]"] exI [of _ xs] exI [of _ n']) simp
  qed
qed


lemma pair_Some:
  assumes "rxMatch False (pairRx opening closing) s = Some m"
  shows "\<exists>pre g post. s = pre @ opening @ g @ closing @ post
      \<and> whole m = opening @ g @ closing \<and> snd m = Some g \<and> group1 m = g
      \<and> (\<forall>c \<in> set g. \<not> isLineTerminator c)
      \<and> removeFirst (whole m) s = pre @ post"
proof -
  obtain m0 G where m: "m = (m0, G)" by (cases m)
  from rxMatch_Some [of False "pairRx opening closing" s m0 G] assms m
  obtain pre post where p: "s = pre @ m0 @ post"
    "matchAt False (pairRx opening closing) (m0 @ post) = Some (length m0, G)"
    "removeFirst m0 s = pre @ post"
    by auto
  from p(2) obtain t n' where t: "m0 @ post = opening @ t"
    "matchAt False [Group, Lit closing] t = Some (n', G)" "length m0 = length opening + n'"
    by (auto simp add: pairRx_def litAt_False split: if_splits option.splits)
  from lazy_sound [OF t(2)] obtain g where g: "G = Some g" "n' = length g + length closing"
    "g = take (length g) t" "\<forall>x \<in> set g. \<not> isLineTerminator x"
    "litAt False closing (drop (length g) t)"
    by blast
  from g(5) obtain u where u: "drop (length g) t = closing @ u" by (auto simp add: litAt_False)
  have "t = take (length g) t @ drop (length g) t" by simp
  with g(3) u have tt: "t = g @ closing @ u" by simp
  with t(1) have e: "m0 @ post = (opening @ g @ closing) @ u" by simp
  have l: "length m0 = length (opening @ g @ closing)" using t(3) g(2) by simp
  from same_length_split [OF e l] have "m0 = opening @ g @ closing" "post = u"
    by simp_all
  with p g m show ?thesis
    by (intro exI [of _ pre] exI [of _ g] exI [of _ post]) (simp add: whole_def group1_def)
qed

lemma pair_None_iff:
  "rxMatch False (pairRx opening closing) s = None \<longleftrightarrow> \<not> hasPair opening closing s"
proof
  assume n: "rxMatch False (pairRx opening closing) s = None"
  show "\<not> hasPair opening closing s"
  proof
    assume "hasPair opening closing s"
    then obtain pre g post where s: "s = pre @ opening @ g @ closing @ post"
      and g: "\<forall>c \<in> set g. \<not> isLineTerminator c"
      by (auto simp add: hasPair_def)
    have "matchAt False [Group, Lit closing] (g @ closing @ post) \<noteq> None"
      using lazy_complete [OF g, of False closing "closing @ post"] by simp
    then have "matchAt False (pairRx opening closing) (drop (length pre) s) \<noteq> None"
      by (auto simp add: pairRx_def s split: option.splits)
    moreover have "length pre \<le> length s" by (simp add: s)
    ultimately show False using n by (simp add: rxMatch_None)
  qed
next
  assume h: "\<not> hasPair opening closing s"
  show "rxMatch False (pairRx opening closing) s = None"
  proof (rule ccontr)
    assume "rxMatch False (pairRx opening closing) s \<noteq> None"
    then obtain m where "rxMatch False (pairRx opening closing) s = Some m" by auto
    from pair_Some [OF this] h show False by (auto simp add: hasPair_def)
  qed
qed

lemma pair_complete:
  assumes "\<forall>c \<in> set p. \<not> isLineTerminator c"
  shows "matchAt False (pairRx otag ctag) (otag @ p @ ctag @ post) \<noteq> None"
proof -
  have "matchAt False [Group, Lit ctag] (p @ ctag @ post) \<noteq> None"
    using lazy_complete [OF assms, of False ctag "ctag @ post"] by simp
  then show ?thesis
    by (auto simp add: pairRx_def split: option.splits)
qed

lemma pair_Some_first:
  assumes "rxMatch False (pairRx otag ctag) s = Some m"
  shows "\<exists>pre p post. s = pre @ otag @ p @ ctag @ post
      \<and> whole m = otag @ p @ ctag \<and> group1 m = p
      \<and> (\<forall>c \<in> set p. \<not> isLineTerminator c)
      \<and> removeFirst (whole m) s = pre @ post
      \<and> (\<forall>pre' p' post'. s = pre' @ otag @ p' @ ctag @ post'
            \<and> (\<forall>c \<in> set p'. \<not> isLineTerminator c) \<longrightarrow> length pre \<le> length pre')
      \<and> (\<forall>p' post'. p @ ctag @ post = p' @ ctag @ post' \<longrightarrow> length p \<le> length p')"
proof -
  obtain m0 G where m: "m = (m0, G)" by (cases m)
  from rxMatch_Some [of False "pairRx otag ctag" s m0 G] assms m
  obtain pre post where p: "s = pre @ m0 @ post"
    "matchAt False (pairRx otag ctag) (m0 @ post) = Some (length m0, G)"
    "\<forall>k < length pre. matchAt False (pairRx otag ctag) (drop k s) = None"
    "removeFirst m0 s = pre @ post"
    by auto
  from p(2) obtain t n' where t: "m0 @ post = otag @ t"
    "matchAt False [Group, Lit ctag] t = Some (n', G)" "length m0 = length otag + n'"
    by (auto simp add: pairRx_def litAt_False split: if_splits option.splits)
  from lazy_sound [OF t(2)] obtain g where g: "G = Some g" "n' = length g + length ctag"
    "g = take (length g) t" "\<forall>x \<in> set g. \<not> isLineTerminator x"
    "litAt False ctag (drop (length g) t)" "\<forall>k < length g. \<not> litAt False ctag (drop k t)"
    by blast
  from g(5) obtain u where u: "drop (length g) t = ctag @ u" by (auto simp add: litAt_False)
  have "t = take (length g) t @ drop (length g) t" by simp
  with g(3) u have tt: "t = g @ ctag @ u" by simp
  with t(1) have e: "m0 @ post = (otag @ g @ ctag) @ u" by simp
  have l: "length m0 = length (otag @ g @ ctag)" using t(3) g(2) by simp
  from same_length_split [OF e l] have mm: "m0 = otag @ g @ ctag" "post = u"
    by simp_all
  have left: "length pre \<le> length pre'"
    if "s = pre' @ otag @ p' @ ctag @ post'" "\<forall>c \<in> set p'. \<not> isLineTerminator c"
    for pre' p' post'
  proof (rule ccontr)
    assume "\<not> length pre \<le> length pre'"
    then have "matchAt False (pairRx otag ctag) (drop (length pre') s) = None"
      using p(3) by simp
    moreover have "drop (length pre') s = otag @ p' @ ctag @ post'"
      using that(1) by simp
    ultimately show False using pair_complete [OF that(2), of otag ctag post'] by simp
  qed
  have short: "length g \<le> length p'" if "g @ ctag @ post = p' @ ctag @ post'" for p' post'
  proof (rule ccontr)
    assume "\<not> length g \<le> length p'"
    then have "\<not> litAt False ctag (drop (length p') t)" using g(6) by simp
    moreover have "drop (length p') t = ctag @ post'"
      using that tt mm(2) by simp
    ultimately show False by simp
  qed
  have 1: "s = pre @ otag @ g @ ctag @ post" using p(1) mm(1) by simp
  have 2: "whole m = otag @ g @ ctag" "group1 m = g"
    using m mm(1) g(1) by (simp_all add: whole_def group1_def)
  have 3: "removeFirst (whole m) s = pre @ post" using p(4) m by (simp add: whole_def)
  have 4: "\<forall>pre' p' post'. s = pre' @ otag @ p' @ ctag @ post'
            \<and> (\<forall>c \<in> set p'. \<not> isLineTerminator c) \<longrightarrow> length pre \<le> length pre'"
    using left by blast
  have 5: "\<forall>p' post'. g @ ctag @ post = p' @ ctag @ post' \<longrightarrow> length g \<le> length p'"
    using short by blast
  show ?thesis
    apply (rule exI [of _ pre], rule exI [of _ g], rule exI [of _ post])
    apply (intro conjI)
    apply (rule 1, rule 2(1), rule 2(2), rule g(4), rule 3, rule 4, rule 5)
    done
qed

lemma lit_Some:
  assumes "rxMatch False [Lit t] s = Some m"
  shows "\<exists>pre post. s = pre @ t @ post \<and> whole m = t \<and> snd m = None
      \<and> removeFirst (whole m) s = pre @ post"
proof -
  obtain m0 G where m: "m = (m0, G)" by (cases m)
  from rxMatch_Some [of False "[Lit t]" s m0 G] assms m
  obtain pre post where p: "s = pre @ m0 @ post"
    "matchAt False [Lit t] (m0 @ post) = Some (length m0, G)"
    "removeFirst m0 s = pre @ post"
    by auto
  from p(2) obtain u where "m0 @ post = t @ u" "length m0 = length t" "G = None"
    by (auto simp add: litAt_False split: if_splits)
  then have "m0 = t" "G = None" by (simp_all add: append_eq_append_conv)
  with p m show ?thesis
    by (intro exI [of _ pre] exI [of _ post]) (simp add: whole_def)
qed

lemma lit_None_iff: "rxMatch False [Lit t] s = None \<longleftrightarrow> \<not> hasText t s"
proof
  assume n: "rxMatch False [Lit t] s = None"
  show "\<not> hasText t s"
  proof
    assume "hasText t s"
    then obtain pre post where s: "s = pre @ t @ post" by (auto simp add: hasText_def)
    then have "matchAt False [Lit t] (drop (length pre) s) \<noteq> None" by simp
    moreover have "length pre \<le> length s" by (simp add: s)
    ultimately show False using n by (simp only: rxMatch_None) blast
  qed
next
  assume h: "\<not> hasText t s"
  show "rxMatch False [Lit t] s = None"
  proof (rule ccontr)
    assume "rxMatch False [Lit t] s \<noteq> None"
    then obtain m where "rxMatch False [Lit t] s = Some m" by auto
    from lit_Some [OF this] h show False by (auto simp add: hasText_def)
  qed
qed


lemma matchAt_Lit_Some:
  "matchAt ic (Lit l # r) s = Some (n, G) \<longleftrightarrow>
     litAt ic l s \<and> (\<exists>n'. matchAt ic r (drop (length l) s) = Some (n', G) \<and> n = length l + n')"
  by (auto split: option.splits)

lemma deep_Some:
  assumes "rxMatch True deepSearchRx s = Some m"
  shows "\<exists>pre opening w g closing post. s = pre @ opening @ w @ g @ closing @ post
      \<and> whole m = opening @ w @ g @ closing \<and> snd m = Some g \<and> group1 m = g
      \<and> map asciiUpper opening = map asciiUpper (str ''<SEARCH>deep'')
      \<and> w \<noteq> [] \<and> (\<forall>c \<in> set w. isWhiteSpace c)
      \<and> (\<forall>c \<in> set g. \<not> isLineTerminator c)
      \<and> map asciiUpper closing = map asciiUpper (str ''</SEARCH>'')
      \<and> removeFirst (whole m) s = pre @ post
      \<and> takeWhile isWhiteSpace g = []"
proof -
  let ?O = "str ''<SEARCH>deep''" and ?C = "str ''</SEARCH>''"
  obtain m0 G where m: "m = (m0, G)" by (cases m)
  from rxMatch_Some [of True deepSearchRx s m0 G] assms m
  obtain pre post where p: "s = pre @ m0 @ post"
    "matchAt True deepSearchRx (m0 @ post) = Some (length m0, G)"
    "removeFirst m0 s = pre @ post"
    by auto
  from p(2) [unfolded deepSearchRx_def matchAt_Lit_Some]
  obtain n0 where l: "litAt True ?O (m0 @ post)"
    and m1: "matchAt True [WsPlus, Group, Lit ?C] (drop (length ?O) (m0 @ post)) = Some (n0, G)"
    and n: "length m0 = length ?O + n0"
    by blast
  from l obtain otag t0 where o: "m0 @ post = otag @ t0"
    "map asciiUpper otag = map asciiUpper ?O"
    by (auto simp add: litAt_True)
  from o(2) have lo: "length otag = length ?O" by (rule map_eq_imp_length_eq)
  from o(1) lo have d: "drop (length ?O) (m0 @ post) = t0" by simp
  have C: "?C = 0x3C # str ''/SEARCH>''" by (simp add: str_def)
  from ws_greedy [OF m1 [unfolded d C]] lt_not_whitespace
  obtain w t1 n1 where w: "t0 = w @ t1" "w \<noteq> []"
    "\<forall>c \<in> set w. isWhiteSpace c" "matchAt True [Group, Lit ?C] t1 = Some (n1, G)"
    "n0 = length w + n1" and gr: "takeWhile isWhiteSpace t1 = []"
    unfolding C by blast
  from lazy_sound [OF w(4)] obtain g where g: "G = Some g" "n1 = length g + length ?C"
    "g = take (length g) t1" "\<forall>x \<in> set g. \<not> isLineTerminator x"
    "litAt True ?C (drop (length g) t1)"
    by blast
  from g(5) obtain ctag u where c: "drop (length g) t1 = ctag @ u"
    "map asciiUpper ctag = map asciiUpper ?C"
    by (auto simp add: litAt_True)
  from c(2) have lc: "length ctag = length ?C" by (rule map_eq_imp_length_eq)
  have "t1 = take (length g) t1 @ drop (length g) t1" by simp
  with g(3) c(1) have t1: "t1 = g @ ctag @ u" by simp
  have e: "m0 @ post = (otag @ w @ g @ ctag) @ u"
    using o(1) w(1) t1 by simp
  have ll: "length m0 = length (otag @ w @ g @ ctag)"
    using n w(5) g(2) lo lc by simp
  from same_length_split [OF e ll] have "m0 = otag @ w @ g @ ctag" "post = u"
    by simp_all
  moreover have "takeWhile isWhiteSpace g = []"
    using gr t1 by (cases g) (auto split: if_splits)
  ultimately show ?thesis
    using p m g o(2) w(2,3) c(2)
    by (intro exI [of _ pre] exI [of _ otag] exI [of _ w] exI [of _ g] exI [of _ ctag]
        exI [of _ post]) (simp add: whole_def group1_def)
qed



lemma deep_None_iff: "rxMatch True deepSearchRx s = None \<longleftrightarrow> \<not> hasDeepSearch s"
proof
  assume n: "rxMatch True deepSearchRx s = None"
  show "\<not> hasDeepSearch s"
  proof
    let ?O = "str ''<SEARCH>deep''" and ?C = "str ''</SEARCH>''"
    assume "hasDeepSearch s"
    then obtain pre otag w g ctag post where s: "s = pre @ otag @ w @ g @ ctag @ post"
      and o: "map asciiUpper otag = map asciiUpper ?O"
      and w: "w \<noteq> []" "\<forall>c \<in> set w. isWhiteSpace c"
      and g: "\<forall>c \<in> set g. \<not> isLineTerminator c"
      and c: "map asciiUpper ctag = map asciiUpper ?C"
      by (auto simp add: hasDeepSearch_def)
    from o have lo: "length otag = length ?O" by (rule map_eq_imp_length_eq)
    have "litAt True ?C (ctag @ post)"
      using c by (auto simp add: litAt_True)
    from lazy_complete [OF g this]
    have "matchAt True [Group, Lit ?C] (g @ ctag @ post) \<noteq> None" .
    from ws_complete [OF w this]
    have 1: "matchAt True [WsPlus, Group, Lit ?C] (w @ g @ ctag @ post) \<noteq> None" .
    have 2: "litAt True ?O (otag @ w @ g @ ctag @ post)"
      using o by (auto simp add: litAt_True)
    have 3: "drop (length ?O) (otag @ w @ g @ ctag @ post) = w @ g @ ctag @ post"
      using lo by simp
    have "matchAt True deepSearchRx (otag @ w @ g @ ctag @ post) \<noteq> None"
      unfolding deepSearchRx_def using 1 2 3
      by (simp only: matchAt.simps if_True) (auto split: option.splits)
    then have "matchAt True deepSearchRx (drop (length pre) s) \<noteq> None"
      by (simp add: s)
    moreover have "length pre \<le> length s" by (simp add: s)
    ultimately show False using n by (simp only: rxMatch_None) blast
  qed
next
  assume h: "\<not> hasDeepSearch s"
  show "rxMatch True deepSearchRx s = None"
  proof (rule ccontr)
    assume "rxMatch True deepSearchRx s \<noteq> None"
    then obtain m where "rxMatch True deepSearchRx s = Some m" by auto
    from deep_Some [OF this] h show False
      unfolding hasDeepSearch_def by blast
  qed
qed



lemma hasPair_hasText: "hasPair opening closing s \<Longrightarrow> hasText opening s"
  by (auto simp add: hasPair_def hasText_def)

lemma match_present:
  "deepMatch s = None \<longleftrightarrow> \<not> present DEEP_SEARCH s"
  "searchMatch s = None \<longleftrightarrow> \<not> present SEARCH s"
  "thinkMatch s = None \<longleftrightarrow> \<not> present THINK s"
  "imageMatch s = None \<longleftrightarrow> \<not> present IMAGE s"
  "projectMatch s = None \<longleftrightarrow> \<not> present PROJECT s"
  "canvasMatch s = None \<longleftrightarrow> \<not> present CANVAS s"
  "studyMatch s = None \<longleftrightarrow> \<not> present STUDY s"
proof -
  show "deepMatch s = None \<longleftrightarrow> \<not> present DEEP_SEARCH s"
    using pair_None_iff [of "str ''<DEEP>''" "str ''</DEEP>''" s] deep_None_iff [of s]
    by (auto simp add: deepMatch_def orElse_def split: option.splits)
  show "thinkMatch s = None \<longleftrightarrow> \<not> present THINK s"
    using pair_None_iff [of "str ''<THINK>''" "str ''</THINK>''" s]
      lit_None_iff [of "str ''<THINK>''" s]
      hasPair_hasText [of "str ''<THINK>''" "str ''</THINK>''" s]
    by (auto simp add: thinkMatch_def orElse_def split: option.splits)
qed (simp_all add: searchMatch_def imageMatch_def projectMatch_def canvasMatch_def
    studyMatch_def pair_None_iff)


section \<open>The tag scan\<close>

lemma reroute_fields [simp]:
  "currentAction (reroute a p m0 st) = a"
  "currentPrompt (reroute a p m0 st) = p"
  "finalResponseText (reroute a p m0 st) = removeFirst m0 (finalResponseText st)"
  by (simp_all add: reroute_def)

text \<open>the chain of the tag scan, one link at a time\<close>

lemma tagDetection_deep:
  "deepMatch g = Some m \<Longrightarrow>
     tagDetection inp g st = (reroute DEEP_SEARCH (group1 m) (whole m) st, Continue)"
  by (simp add: tagDetection_def)

lemma tagDetection_search:
  "deepMatch g = None \<Longrightarrow> searchMatch g = Some m \<Longrightarrow>
     tagDetection inp g st = (reroute SEARCH (group1 m) (whole m) st, Continue)"
  by (simp add: tagDetection_def)

lemma tagDetection_think:
  "deepMatch g = None \<Longrightarrow> searchMatch g = None \<Longrightarrow> thinkMatch g = Some m \<Longrightarrow>
     tagDetection inp g st =
       (reroute THINK
          (case snd m of None \<Rightarrow> prompt inp | Some t \<Rightarrow> if t = [] then prompt inp else trim t)
          (whole m) st, Continue)"
  by (simp add: tagDetection_def)

lemma tagDetection_image:
  "deepMatch g = None \<Longrightarrow> searchMatch g = None \<Longrightarrow> thinkMatch g = None
     \<Longrightarrow> imageMatch g = Some m \<Longrightarrow>
     tagDetection inp g st =
       ((reroute IMAGE (group1 m) (whole m) st)
          \<lparr>routing := (routing st)\<lparr>parameters := [''prompt'' \<mapsto> group1 m]\<rparr>\<rparr>, Continue)"
  by (simp add: tagDetection_def)

lemma tagDetection_project:
  "deepMatch g = None \<Longrightarrow> searchMatch g = None \<Longrightarrow> thinkMatch g = None
     \<Longrightarrow> imageMatch g = None \<Longrightarrow> projectMatch g = Some m \<Longrightarrow>
     tagDetection inp g st = (reroute PROJECT (group1 m) (whole m) st, Continue)"
  by (simp add: tagDetection_def)

lemma tagDetection_canvas:
  "deepMatch g = None \<Longrightarrow> searchMatch g = None \<Longrightarrow> thinkMatch g = None
     \<Longrightarrow> imageMatch g = None \<Longrightarrow> projectMatch g = None \<Longrightarrow> canvasMatch g = Some m \<Longrightarrow>
     tagDetection inp g st = (reroute CANVAS (group1 m) (whole m) st, Continue)"
  by (simp add: tagDetection_def)

lemma tagDetection_study:
  "deepMatch g = None \<Longrightarrow> searchMatch g = None \<Longrightarrow> thinkMatch g = None
     \<Longrightarrow> imageMatch g = None \<Longrightarrow> projectMatch g = None \<Longrightarrow> canvasMatch g = None
     \<Longrightarrow> studyMatch g = Some m \<Longrightarrow>
     tagDetection inp g st = (reroute STUDY (group1 m) (whole m) st, Continue)"
  by (simp add: tagDetection_def)

lemma tagDetection_none:
  "deepMatch g = None \<Longrightarrow> searchMatch g = None \<Longrightarrow> thinkMatch g = None
     \<Longrightarrow> imageMatch g = None \<Longrightarrow> projectMatch g = None \<Longrightarrow> canvasMatch g = None
     \<Longrightarrow> studyMatch g = None \<Longrightarrow>
     \<exists>st1. tagDetection inp g st = (st1, Return (mkMessage inp st1))"
  by (simp add: tagDetection_def Let_def)

lemma scan_cases:
  obtains (deep) m where "deepMatch g = Some m"
    | (search) m where "deepMatch g = None" "searchMatch g = Some m"
    | (think) m where "deepMatch g = None" "searchMatch g = None" "thinkMatch g = Some m"
    | (image) m where "deepMatch g = None" "searchMatch g = None" "thinkMatch g = None"
        "imageMatch g = Some m"
    | (project) m where "deepMatch g = None" "searchMatch g = None" "thinkMatch g = None"
        "imageMatch g = None" "projectMatch g = Some m"
    | (canvas) m where "deepMatch g = None" "searchMatch g = None" "thinkMatch g = None"
        "imageMatch g = None" "projectMatch g = None" "canvasMatch g = Some m"
    | (study) m where "deepMatch g = None" "searchMatch g = None" "thinkMatch g = None"
        "imageMatch g = None" "projectMatch g = None" "canvasMatch g = None"
        "studyMatch g = Some m"
    | (none) "deepMatch g = None" "searchMatch g = None" "thinkMatch g = None"
        "imageMatch g = None" "projectMatch g = None" "canvasMatch g = None"
        "studyMatch g = None"
proof (cases "deepMatch g")
  case (Some m)
  then show ?thesis by (rule deep)
next
  case 1: None
  show ?thesis
  proof (cases "searchMatch g")
    case (Some m)
    with 1 show ?thesis by (rule search)
  next
    case 2: None
    show ?thesis
    proof (cases "thinkMatch g")
      case (Some m)
      with 1 2 show ?thesis by (rule think)
    next
      case 3: None
      show ?thesis
      proof (cases "imageMatch g")
        case (Some m)
        with 1 2 3 show ?thesis by (rule image)
      next
        case 4: None
        show ?thesis
        proof (cases "projectMatch g")
          case (Some m)
          with 1 2 3 4 show ?thesis by (rule project)
        next
          case 5: None
          show ?thesis
          proof (cases "canvasMatch g")
            case (Some m)
            with 1 2 3 4 5 show ?thesis by (rule canvas)
          next
            case 6: None
            show ?thesis
            proof (cases "studyMatch g")
              case (Some m)
              with 1 2 3 4 5 6 show ?thesis by (rule study)
            next
              case None
              with 1 2 3 4 5 6 show ?thesis by (rule none)
            qed
          qed
        qed
      qed
    qed
  qed
qed

lemma tag_priority_find:
  assumes "tagDetection inp g st = (st1, fl)"
  shows "case find (\<lambda>a. present a g) priority of
           None \<Rightarrow> fl = Return (mkMessage inp st1)
         | Some a \<Rightarrow> fl = Continue \<and> currentAction st1 = a"
proof (cases rule: scan_cases [of g])
    case (deep m)
    then have "present DEEP_SEARCH g" using match_present(1) [of g] by simp
    with tagDetection_deep [OF deep, of inp st] assms show ?thesis
      by (simp add: priority_def)
  next
    case (search m)
    then have "\<not> present DEEP_SEARCH g" "present SEARCH g"
      using match_present(1,2) [of g] by simp_all
    with tagDetection_search [OF search, of inp st] assms show ?thesis
      by (simp add: priority_def)
  next
    case (think m)
    then have "\<not> present DEEP_SEARCH g" "\<not> present SEARCH g" "present THINK g"
      using match_present(1,2,3) [of g] by simp_all
    with tagDetection_think [OF think, of inp st] assms show ?thesis
      by (auto simp add: priority_def)
  next
    case (image m)
    then have "\<not> present DEEP_SEARCH g" "\<not> present SEARCH g" "\<not> present THINK g"
      "present IMAGE g"
      using match_present(1,2,3,4) [of g] by simp_all
    with tagDetection_image [OF image, of inp st] assms show ?thesis
      by (auto simp add: priority_def)
  next
    case (project m)
    then have "\<not> present DEEP_SEARCH g" "\<not> present SEARCH g" "\<not> present THINK g"
      "\<not> present IMAGE g" "present PROJECT g"
      using match_present(1,2,3,4,5) [of g] by simp_all
    with tagDetection_project [OF project, of inp st] assms show ?thesis
      by (auto simp add: priority_def)
  next
    case (canvas m)
    then have "\<not> present DEEP_SEARCH g" "\<not> present SEARCH g" "\<not> present THINK g"
      "\<not> present IMAGE g" "\<not> present PROJECT g" "present CANVAS g"
      using match_present(1,2,3,4,5,6) [of g] by simp_all
    with tagDetection_canvas [OF canvas, of inp st] assms show ?thesis
      by (auto simp add: priority_def)
  next
    case (study m)
    then have "\<not> present DEEP_SEARCH g" "\<not> present SEARCH g" "\<not> present THINK g"
      "\<not> present IMAGE g" "\<not> present PROJECT g" "\<not> present CANVAS g" "present STUDY g"
      using match_present [of g] by simp_all
    with tagDetection_study [OF study, of inp st] assms show ?thesis
      by (auto simp add: priority_def)
  next
    case none
    then have "\<not> present DEEP_SEARCH g" "\<not> present SEARCH g" "\<not> present THINK g"
      "\<not> present IMAGE g" "\<not> present PROJECT g" "\<not> present CANVAS g" "\<not> present STUDY g"
      using match_present [of g] by simp_all
    with tagDetection_none [OF none, of inp st] assms show ?thesis
      by (auto simp add: priority_def)
qed


lemma pair_rerouted_first:
  assumes "rxMatch False (pairRx otag ctag) g = Some m"
    and "tagDetection inp g st = (reroute a (group1 m) (whole m) st', Continue)"
    and "finalResponseText st' = g"
  shows "\<exists>pre p post st1. g = pre @ otag @ p @ ctag @ post
      \<and> (\<forall>c \<in> set p. \<not> isLineTerminator c)
      \<and> (\<forall>pre' p' post'. g = pre' @ otag @ p' @ ctag @ post'
            \<and> (\<forall>c \<in> set p'. \<not> isLineTerminator c) \<longrightarrow> length pre \<le> length pre')
      \<and> (\<forall>p' post'. p @ ctag @ post = p' @ ctag @ post' \<longrightarrow> length p \<le> length p')
      \<and> tagDetection inp g st = (st1, Continue)
      \<and> currentAction st1 = a \<and> currentPrompt st1 = p \<and> finalResponseText st1 = pre @ post"
proof -
  from pair_Some_first [OF assms(1)] obtain pre p post where
    "g = pre @ otag @ p @ ctag @ post" "group1 m = p"
    "\<forall>c \<in> set p. \<not> isLineTerminator c" "removeFirst (whole m) g = pre @ post"
    "\<forall>pre' p' post'. g = pre' @ otag @ p' @ ctag @ post'
            \<and> (\<forall>c \<in> set p'. \<not> isLineTerminator c) \<longrightarrow> length pre \<le> length pre'"
    "\<forall>p' post'. p @ ctag @ post = p' @ ctag @ post' \<longrightarrow> length p \<le> length p'"
    by blast
  note f = this
  have 6: "tagDetection inp g st = (reroute a (group1 m) (whole m) st', Continue)"
    by (rule assms(2))
  have 7: "currentAction (reroute a (group1 m) (whole m) st') = a" by simp
  have 8: "currentPrompt (reroute a (group1 m) (whole m) st') = p" using f(2) by simp
  have 9: "finalResponseText (reroute a (group1 m) (whole m) st') = pre @ post"
    using f(4) assms(3) by simp
  show ?thesis
    apply (rule exI [of _ pre], rule exI [of _ p], rule exI [of _ post],
        rule exI [of _ "reroute a (group1 m) (whole m) st'"])
    apply (intro conjI)
    apply (rule f(1), rule f(3), rule f(5), rule f(6), rule 6, rule 7, rule 8, rule 9)
    done
qed

lemma scan_pair_rerouted:
  assumes "tagOf a = Some (otag, ctag)"
    and "hasPair otag ctag g"
    and "\<forall>b \<in> set (takeWhile (\<lambda>b. b \<noteq> a) priority). \<not> present b g"
    and "finalResponseText st = g"
  shows "\<exists>pre p post st1. g = pre @ otag @ p @ ctag @ post
      \<and> (\<forall>c \<in> set p. \<not> isLineTerminator c)
      \<and> (\<forall>pre' p' post'. g = pre' @ otag @ p' @ ctag @ post'
            \<and> (\<forall>c \<in> set p'. \<not> isLineTerminator c) \<longrightarrow> length pre \<le> length pre')
      \<and> (\<forall>p' post'. p @ ctag @ post = p' @ ctag @ post' \<longrightarrow> length p \<le> length p')
      \<and> tagDetection inp g st = (st1, Continue)
      \<and> currentAction st1 = a \<and> currentPrompt st1 = p \<and> finalResponseText st1 = pre @ post"
proof -
  from assms(2) obtain m where m: "rxMatch False (pairRx otag ctag) g = Some m"
    using pair_None_iff [of otag ctag g] by auto
  show ?thesis
  proof (cases a)
    case DEEP_SEARCH
    with assms(1) m have "deepMatch g = Some m"
      by (auto simp add: deepMatch_def orElse_def)
    from tagDetection_deep [OF this, of inp st] DEEP_SEARCH
    show ?thesis by (intro pair_rerouted_first [OF m _ assms(4)]) simp
  next
    case SEARCH
    with assms(1,3) m have "deepMatch g = None" "searchMatch g = Some m"
      by (auto simp add: priority_def match_present searchMatch_def)
    from tagDetection_search [OF this, of inp st] SEARCH
    show ?thesis by (intro pair_rerouted_first [OF m _ assms(4)]) simp
  next
    case IMAGE
    with assms(1,3) m have n: "deepMatch g = None" "searchMatch g = None" "thinkMatch g = None"
      "imageMatch g = Some m"
      by (auto simp add: priority_def match_present imageMatch_def)
    let ?st = "st\<lparr>routing := (routing st)\<lparr>parameters := [''prompt'' \<mapsto> group1 m]\<rparr>\<rparr>"
    have "tagDetection inp g st = (reroute a (group1 m) (whole m) ?st, Continue)"
      using tagDetection_image [OF n, of inp st] IMAGE by (simp add: reroute_def)
    moreover have "finalResponseText ?st = g" using assms(4) by simp
    ultimately show ?thesis by (intro pair_rerouted_first [OF m])
  next
    case PROJECT
    with assms(1,3) m have "deepMatch g = None" "searchMatch g = None" "thinkMatch g = None"
      "imageMatch g = None" "projectMatch g = Some m"
      by (auto simp add: priority_def match_present projectMatch_def)
    from tagDetection_project [OF this, of inp st] PROJECT
    show ?thesis by (intro pair_rerouted_first [OF m _ assms(4)]) simp
  next
    case CANVAS
    with assms(1,3) m have "deepMatch g = None" "searchMatch g = None" "thinkMatch g = None"
      "imageMatch g = None" "projectMatch g = None" "canvasMatch g = Some m"
      by (auto simp add: priority_def match_present canvasMatch_def)
    from tagDetection_canvas [OF this, of inp st] CANVAS
    show ?thesis by (intro pair_rerouted_first [OF m _ assms(4)]) simp
  next
    case STUDY
    with assms(1,3) m have "deepMatch g = None" "searchMatch g = None" "thinkMatch g = None"
      "imageMatch g = None" "projectMatch g = None" "canvasMatch g = None"
      "studyMatch g = Some m"
      by (auto simp add: priority_def match_present studyMatch_def)
    from tagDetection_study [OF this, of inp st] STUDY
    show ?thesis by (intro pair_rerouted_first [OF m _ assms(4)]) simp
  qed (use assms(1) in simp_all)
qed


text \<open>
  Claim C4, amended. The tag scan continues with another mode only when the tag of that
  mode is in the text: for \<open>SEARCH\<close>, \<open>IMAGE\<close>, \<open>PROJECT\<close>, \<open>CANVAS\<close> and
  \<open>STUDY\<close> the opening tag, a content without line terminator and the closing tag; for
  \<open>DEEP_SEARCH\<close> such a pair of \<^verbatim>\<open>DEEP\<close> tags or a search tag with the prefix
  \<^verbatim>\<open>deep\<close>; for \<open>THINK\<close> the opening tag \<^verbatim>\<open><THINK>\<close> alone.
\<close>

theorem reroute_requires_tag:
  assumes "tagDetection inp g st = (st1, Continue)"
  shows "currentAction st1 \<in> set priority \<and> present (currentAction st1) g"
proof -
  from tag_priority_find [OF assms]
  obtain a where "find (\<lambda>a. present a g) priority = Some a" "currentAction st1 = a"
    by (cases "find (\<lambda>a. present a g) priority") simp_all
  then show ?thesis
    by (auto simp add: find_Some_iff in_set_conv_nth)
qed


text \<open>A text with a pair of \<^verbatim>\<open>STUDY\<close> tags.\<close>

theorem reroute_requires_tag_witness:
  "snd (tagDetection demoInput (str ''<STUDY>x</STUDY>'') (scanState (str ''<STUDY>x</STUDY>''))) = Continue
   \<and> currentAction (fst (tagDetection demoInput (str ''<STUDY>x</STUDY>'')
        (scanState (str ''<STUDY>x</STUDY>'')))) = STUDY
   \<and> present STUDY (str ''<STUDY>x</STUDY>'')"
proof -
  let ?g = "str ''<STUDY>x</STUDY>''"
  let ?r = "tagDetection demoInput ?g (scanState ?g)"
  have c: "snd ?r = Continue" by (simp add: eval_defs)
  have a: "currentAction (fst ?r) = STUDY" by (simp add: eval_defs)
  from c have "?r = (fst ?r, Continue)" by (metis prod.collapse)
  from reroute_requires_tag [OF this] a have "present STUDY ?g" by simp
  with c a show ?thesis by blast
qed


text \<open>
  Claim C4 as stated fails for the thinking mode: the text \<^verbatim>\<open><THINK>\<close> has no closing
  tag and switches the mode.
\<close>

theorem bare_think_counterexample:
  "snd (tagDetection demoInput (str ''<THINK>'') (scanState (str ''<THINK>''))) = Continue
   \<and> currentAction (fst (tagDetection demoInput (str ''<THINK>'') (scanState (str ''<THINK>'')))) = THINK
   \<and> \<not> hasText (str ''</THINK>'') (str ''<THINK>'')
   \<and> console (fst (tryBody bareThinkEnv demoInput)) = [(1, SIMPLE), (2, THINK)]"
proof -
  have "rxMatch False [Lit (str ''</THINK>'')] (str ''<THINK>'') = None"
    by (simp add: string_defs)
  then have "\<not> hasText (str ''</THINK>'') (str ''<THINK>'')"
    by (simp add: lit_None_iff)
  moreover have "snd (tagDetection demoInput (str ''<THINK>'') (scanState (str ''<THINK>''))) = Continue"
    "currentAction (fst (tagDetection demoInput (str ''<THINK>'') (scanState (str ''<THINK>'')))) = THINK"
    by (simp_all add: eval_defs)
  moreover have "console (fst (tryBody bareThinkEnv demoInput)) = [(1, SIMPLE), (2, THINK)]"
    by (simp add: bareThinkEnv_def demo_defs string_defs scan_defs step_defs agentLoop.simps Let_def)
  ultimately show ?thesis by blast
qed


section \<open>Runs that reach the tag scan\<close>

text \<open>
  A run whose conversational request is recorded and whose stream has ended: its first
  iteration is the tag scan of the text that the stream generated, and when the scan
  continues, the run is the loop continued from the state that the scan leaves.
\<close>

lemma simple_not_tool:
  "GenerateContentStream (simpleRequest env inp ctx ps) \<notin> set (toolCalls env' inp' ctx' st)"
  by (cases "currentAction st")
     (auto simp add: toolCalls_def simpleRequest_def searchRequest_def thinkRequest_def
        canvasRequest_def studyRequest_def Let_def split: option.splits)

lemma toolCalls_logIteration [simp]:
  "toolCalls env inp ctx (logIteration n st) = toolCalls env inp ctx st"
  by (cases "currentAction st") (simp_all add: toolCalls_def split: option.splits)

lemma agentLoop_last_step:
  "agentLoop env inp ctx (Suc 0) st =
     (case execAction env inp ctx (logIteration 2 st) of
        (st2, Continue) \<Rightarrow> (st2, Inr (mkMessage inp st2))
      | (st2, Return m) \<Rightarrow> (st2, Inr m)
      | (st2, Throw e) \<Rightarrow> (st2, Inl e))"
proof -
  have 2: "agentLoop env inp ctx (Suc (Suc 0)) s = (s, Inr (mkMessage inp s))" for s
    by (subst agentLoop.simps) (simp add: MAX_LOOPS_def)
  show ?thesis
    by (subst agentLoop.simps) (simp add: MAX_LOOPS_def 2 numeral_2_eq_2 split: prod.splits Flow.splits)
qed

lemma agentLoop_first_step:
  "agentLoop env inp ctx 0 st =
     (case execAction env inp ctx (logIteration 1 st) of
        (st1, Continue) \<Rightarrow> agentLoop env inp ctx 1 st1
      | (st1, Return m) \<Rightarrow> (st1, Inr m)
      | (st1, Throw e) \<Rightarrow> (st1, Inl e))"
  by (subst agentLoop.simps) (simp add: MAX_LOOPS_def split: prod.splits Flow.splits)

lemma scan_imagePrompt:
  assumes "tagDetection inp g st = (st1, Continue)"
    and "parameters (routing st) ''prompt'' = None"
  shows "imagePrompt st1 = currentPrompt st1"
  using assms
  by (auto simp add: tagDetection_def reroute_def imagePrompt_def Let_def split: option.splits)


lemma scanned_run:
  assumes gc: "getContext env (ident (user inp)) allLayers = Inr mc"
    and c: "GenerateContentStream (simpleRequest env inp (contextOf env mc) ps)
              \<in> set (calls (fst (tryBody env inp)))"
    and r: "generateContentStream env (simpleRequest env inp (contextOf env mc) ps) = Inr response"
    and f: "failure response = None"
  obtains st2 st3 :: AgentState and fl where
    "finalResponseText st2 = generatedText (chunks response)"
    "tagDetection inp (generatedText (chunks response)) st2 = (st3, fl)"
    "execAction env inp (contextOf env mc) (logIteration 1 (initialState inp)) = (st3, fl)"
    "console st3 = [(1, SIMPLE)]"
    "last (calls st3) = GenerateContentStream (simpleRequest env inp (contextOf env mc) ps)"
    "fl = Continue \<longrightarrow> tryBody env inp = agentLoop env inp (contextOf env mc) 1 st3"
    "fl = Continue \<longrightarrow> console (fst (tryBody env inp)) = [(1, SIMPLE), (2, currentAction st3)]"
    "fl = Continue \<longrightarrow> calls (fst (tryBody env inp))
        = calls st3 @ toolCalls env inp (contextOf env mc) st3"
    "fl \<noteq> Continue \<longrightarrow> tryBody env inp = (st3, Inr (mkMessage inp st3))"
    "fl = Continue \<longrightarrow> imagePrompt st3 = currentPrompt st3"
proof -
  let ?ctx = "contextOf env mc"
  let ?s1 = "logIteration (Suc 0) (initialState inp)"
  let ?q = "GenerateContentStream (simpleRequest env inp ?ctx ps)"
  have tb: "tryBody env inp = agentLoop env inp ?ctx 0 (initialState inp)"
    using gc by (simp add: tryBody_def contextOf_def)
  have ex1: "execAction env inp ?ctx ?s1 = execSIMPLE env inp ?ctx ?s1"
    by (simp add: execAction_def)
  have q: "isModelCall ?q" "thrownBy env ?q = None"
    using r f by (simp_all add: thrownBy_def)
  show thesis
  proof (cases rule: execSIMPLE_cases [of env inp ?ctx ?s1])
    case (thrown e st1 new)
    then have "tryBody env inp = (st1, Inl e)"
      by (simp add: tb agentLoop_first_step ex1)
    with c thrown(3) have "?q \<in> set new" by simp
    with thrown(7) q show thesis by auto
  next
    case (scanned userParts response' st2 new)
    let ?gen = "generatedText (chunks response')"
    let ?req = "simpleRequest env inp ?ctx userParts"
    obtain st3 fl where td: "tagDetection inp ?gen st2 = (st3, fl)"
      by (cases "tagDetection inp ?gen st2")
    note flow = tagDetection_flow [OF td]
    have calls3: "calls st3 = GetContext (ident (user inp)) allLayers # new @ [GenerateContentStream ?req]"
      using flow scanned by simp
    from \<open>filter isModelCall new = []\<close> have nn: "?q \<notin> set new"
      by (auto simp add: filter_empty_conv)
    have e1: "execAction env inp ?ctx ?s1 = (st3, fl)"
      using scanned(3) td by (simp add: ex1)
    have con3: "console st3 = [(1, SIMPLE)]"
      using flow scanned by simp
    have "parameters (routing st2) ''prompt'' = None"
      using scanned(12) by (simp add: initialState_def route_def logIteration_def Let_def)
    then have ip: "fl = Continue \<longrightarrow> imagePrompt st3 = currentPrompt st3"
      using scan_imagePrompt [of inp ?gen st2 st3] td by simp
    show thesis
    proof (cases "fl = Continue")
      case True
      with flow have na: "currentAction st3 \<noteq> SIMPLE" by auto
      have t1: "tryBody env inp = agentLoop env inp ?ctx 1 st3"
        using e1 True by (simp add: tb agentLoop_first_step)
      obtain st4 fl2 where e2: "execAction env inp ?ctx (logIteration 2 st3) = (st4, fl2)"
        by (cases "execAction env inp ?ctx (logIteration 2 st3)")
      have ts: "toolStep env inp (logIteration 2 st3) (st4, fl2)"
        using toolStep_execAction [of "logIteration 2 st3" env inp ?ctx] na e2 by simp
      have f4: "fst (tryBody env inp) = st4"
        using t1 e2 by (simp add: agentLoop_last_step split: Flow.splits)
      have con4: "console st4 = [(1, SIMPLE), (2, currentAction st3)]"
        using ts con3 by (simp add: toolStep_def)
      have calls4: "calls st4 = calls st3 @ toolCalls env inp ?ctx st3"
        using tool_calls [of "logIteration 2 st3" env inp ?ctx] na e2 by simp
      from c f4 calls4 calls3 nn simple_not_tool [of env inp ?ctx ps env inp ?ctx st3]
      have "?q = GenerateContentStream ?req" by auto
      then have req: "simpleRequest env inp ?ctx ps = ?req" by simp
      with r scanned(1) have "response' = response" by simp
      with scanned td e1 con3 calls3 req t1 f4 con4 calls4 True ip show thesis
        by (intro that [of st2 st3 fl]) simp_all
    next
      case False
      with flow have ret: "fl = Return (mkMessage inp st3)" by auto
      have t1: "tryBody env inp = (st3, Inr (mkMessage inp st3))"
        using e1 ret by (simp add: tb agentLoop_first_step)
      from c t1 calls3 nn have "?q = GenerateContentStream ?req" by auto
      then have req: "simpleRequest env inp ?ctx ps = ?req" by simp
      with r scanned(1) have "response' = response" by simp
      with scanned td e1 con3 calls3 req t1 False show thesis
        by (intro that [of st2 st3 fl]) simp_all
    qed
  qed
qed

lemma streamed_fields [simp]:
  "streamed (emit x st) = streamed st @ [x]"
  "streamed (called c st) = streamed st"
  "streamed (appendText t st) = streamed st"
  by (simp_all add: emit_def called_def appendText_def)

lemma imagePrompt_called [simp]: "imagePrompt (called c st) = imagePrompt st"
  by (simp add: imagePrompt_def split: option.splits)

lemma execIMAGE_result:
  assumes "execIMAGE env inp ctx st = (st1, fl)"
  shows "last (calls st1) = GenerateImage (imagePrompt st) (apiKey inp) (preferredImageModel inp)"
    and "ImageGenerationStart (finalResponseText st) \<in> set (streamed st1)"
    and "set (calls st) \<subseteq> set (calls st1)"
    and "generateImage env (imagePrompt st) (apiKey inp) (preferredImageModel inp) = Inl e \<Longrightarrow>
           \<exists>m. fl = Return m \<and> image_base64 m = None \<and> imageStatus m = None
              \<and> text m = finalResponseText st
                   @ str ''\<newline>\<newline>(Image generation failed: ''
                   @ (case e of ErrorObject message \<Rightarrow> message
                      | OtherValue v \<Rightarrow> str ''Unknown error'')
                   @ str '')''"
    and "generateImage env (imagePrompt st) (apiKey inp) (preferredImageModel inp) = Inr b \<Longrightarrow>
           \<exists>m. fl = Return m \<and> text m = finalResponseText st
              \<and> image_base64 m = Some b \<and> imageStatus m = Some (str ''complete'')"
  using assms
  by (auto simp add: execIMAGE_def Let_def split: sum.splits)

lemma scan_image:
  assumes "tagDetection inp g st = (st1, Continue)" and "currentAction st1 = IMAGE"
  obtains m where "imageMatch g = Some m"
    "st1 = (reroute IMAGE (group1 m) (whole m) st)
              \<lparr>routing := (routing st)\<lparr>parameters := [''prompt'' \<mapsto> group1 m]\<rparr>\<rparr>"
proof (cases rule: scan_cases [of g])
  case (deep m)
  from tagDetection_deep [OF deep, of inp st] assms show ?thesis by auto
next
  case (search m)
  from tagDetection_search [OF search, of inp st] assms show ?thesis by auto
next
  case (think m)
  from tagDetection_think [OF think, of inp st] assms show ?thesis by auto
next
  case (image m)
  from tagDetection_image [OF image, of inp st] assms have
    "st1 = (reroute IMAGE (group1 m) (whole m) st)
              \<lparr>routing := (routing st)\<lparr>parameters := [''prompt'' \<mapsto> group1 m]\<rparr>\<rparr>"
    by simp
  with image(4) show ?thesis by (rule that)
next
  case (project m)
  from tagDetection_project [OF project, of inp st] assms show ?thesis by auto
next
  case (canvas m)
  from tagDetection_canvas [OF canvas, of inp st] assms show ?thesis by auto
next
  case (study m)
  from tagDetection_study [OF study, of inp st] assms show ?thesis by auto
next
  case none
  from tagDetection_none [OF none, of inp st] assms show ?thesis by auto
qed


section \<open>The priority of the tags\<close>







section \<open>The tag that is taken\<close>

text \<open>
  Claim C1, amended. In a run whose conversational request was answered by a stream that
  ended: when the generated text has the pair of tags of a mode (with a content without
  line terminator) and no tag that the scan tries before it, then the first iteration
  ends with \<^verbatim>\<open>continue\<close> in a state with that mode, with the content of the first tag
  of that pair (the leftmost opening tag that starts one, up to the first closing tag) as
  the prompt, also for the image mode, and with the generated text without that tag as the
  accumulated response text. The run is the loop continued from that state: its second
  iteration is logged with the new mode, its calls are those of the new mode with the new
  prompt, and its message is the one that the continued loop returns.
\<close>

theorem tag_pair_rerouted:
  assumes "tagOf a = Some (otag, ctag)"
    and "getContext env (ident (user inp)) allLayers = Inr mc"
    and "GenerateContentStream (simpleRequest env inp (contextOf env mc) ps)
           \<in> set (calls (fst (tryBody env inp)))"
    and "generateContentStream env (simpleRequest env inp (contextOf env mc) ps) = Inr response"
    and "failure response = None"
    and "hasPair otag ctag (generatedText (chunks response))"
    and "\<forall>b \<in> set (takeWhile (\<lambda>b. b \<noteq> a) priority). \<not> present b (generatedText (chunks response))"
  shows "\<exists>pre p post st1. generatedText (chunks response) = pre @ otag @ p @ ctag @ post
      \<and> (\<forall>c \<in> set p. \<not> isLineTerminator c)
      \<and> (\<forall>pre' p' post'. generatedText (chunks response) = pre' @ otag @ p' @ ctag @ post'
            \<and> (\<forall>c \<in> set p'. \<not> isLineTerminator c) \<longrightarrow> length pre \<le> length pre')
      \<and> (\<forall>p' post'. p @ ctag @ post = p' @ ctag @ post' \<longrightarrow> length p \<le> length p')
      \<and> execAction env inp (contextOf env mc) (logIteration 1 (initialState inp)) = (st1, Continue)
      \<and> currentAction st1 = a \<and> currentPrompt st1 = p \<and> imagePrompt st1 = p
      \<and> finalResponseText st1 = pre @ post
      \<and> tryBody env inp = agentLoop env inp (contextOf env mc) 1 st1
      \<and> console (fst (tryBody env inp)) = [(1, SIMPLE), (2, a)]
      \<and> calls (fst (tryBody env inp)) = calls st1 @ toolCalls env inp (contextOf env mc) st1
      \<and> (\<forall>m. snd (agentLoop env inp (contextOf env mc) 1 st1) = Inr m
            \<longrightarrow> messages (runAutonomousAgent env inp) = [m])"
proof -
  let ?g = "generatedText (chunks response)"
  obtain st2 st3 :: AgentState and fl where s0:
    "finalResponseText st2 = ?g"
    "tagDetection inp ?g st2 = (st3, fl)"
    "execAction env inp (contextOf env mc) (logIteration 1 (initialState inp)) = (st3, fl)"
    "console st3 = [(1, SIMPLE)]"
    "last (calls st3) = GenerateContentStream (simpleRequest env inp (contextOf env mc) ps)"
    "fl = Continue \<longrightarrow> tryBody env inp = agentLoop env inp (contextOf env mc) 1 st3"
    "fl = Continue \<longrightarrow> console (fst (tryBody env inp)) = [(1, SIMPLE), (2, currentAction st3)]"
    "fl = Continue \<longrightarrow> calls (fst (tryBody env inp))
        = calls st3 @ toolCalls env inp (contextOf env mc) st3"
    "fl \<noteq> Continue \<longrightarrow> tryBody env inp = (st3, Inr (mkMessage inp st3))"
    "fl = Continue \<longrightarrow> imagePrompt st3 = currentPrompt st3"
    by (rule scanned_run [OF assms(2-5)])
  note s = s0(1,2,3,6,7,8,10)
  from scan_pair_rerouted [OF assms(1,6,7) s(1), of inp] obtain pre p post st1 where d:
    "?g = pre @ otag @ p @ ctag @ post" "\<forall>c \<in> set p. \<not> isLineTerminator c"
    "\<forall>pre' p' post'. ?g = pre' @ otag @ p' @ ctag @ post'
            \<and> (\<forall>c \<in> set p'. \<not> isLineTerminator c) \<longrightarrow> length pre \<le> length pre'"
    "\<forall>p' post'. p @ ctag @ post = p' @ ctag @ post' \<longrightarrow> length p \<le> length p'"
    "tagDetection inp ?g st2 = (st1, Continue)"
    "currentAction st1 = a" "currentPrompt st1 = p" "finalResponseText st1 = pre @ post"
    by blast
  from d(5) s(2) have e: "st3 = st1" "fl = Continue" by simp_all
  have 5: "execAction env inp (contextOf env mc) (logIteration 1 (initialState inp)) = (st1, Continue)"
    using s(3) e by simp
  have 6: "tryBody env inp = agentLoop env inp (contextOf env mc) 1 st1"
    using s(4) e by simp
  have 7: "console (fst (tryBody env inp)) = [(1, SIMPLE), (2, a)]"
    using s(5) e d(6) by simp
  have 8: "calls (fst (tryBody env inp)) = calls st1 @ toolCalls env inp (contextOf env mc) st1"
    using s(6) e by simp
  have 10: "imagePrompt st1 = p"
    using s(7) e d(7) by simp
  have 9: "\<forall>m. snd (agentLoop env inp (contextOf env mc) 1 st1) = Inr m
            \<longrightarrow> messages (runAutonomousAgent env inp) = [m]"
    using 6 by (simp add: runAutonomousAgent_def)
  show ?thesis
    apply (rule exI [of _ pre], rule exI [of _ p], rule exI [of _ post], rule exI [of _ st1])
    apply (intro conjI)
    apply (rule d(1), rule d(2), rule d(3), rule d(4), rule 5, rule d(6), rule d(7), rule 10,
        rule d(8), rule 6, rule 7, rule 8, rule 9)
    done
qed


text \<open>A run whose model replies with a text that has one pair of image tags.\<close>

theorem tag_pair_rerouted_witness:
  "tagOf IMAGE = Some (str ''<IMAGE>'', str ''</IMAGE>'')
   \<and> getContext imageTagEnv (ident (user demoInput)) allLayers = Inr (str ''{}'')
   \<and> GenerateContentStream (simpleRequest imageTagEnv demoInput (contextOf imageTagEnv (str ''{}''))
          [TextPart (str ''hi'')]) \<in> set (calls (fst (tryBody imageTagEnv demoInput)))
   \<and> generateContentStream imageTagEnv
        (simpleRequest imageTagEnv demoInput (contextOf imageTagEnv (str ''{}'')) [TextPart (str ''hi'')])
        = Inr \<lparr> chunks = [\<lparr> chunk_text = Some imageTagText, candidates = None \<rparr>], failure = None \<rparr>
   \<and> generatedText [\<lparr> chunk_text = Some imageTagText, candidates = None \<rparr>] = imageTagText
   \<and> hasPair (str ''<IMAGE>'') (str ''</IMAGE>'') imageTagText
   \<and> takeWhile (\<lambda>b. b \<noteq> IMAGE) priority = [DEEP_SEARCH, SEARCH, THINK]
   \<and> \<not> present DEEP_SEARCH imageTagText \<and> \<not> present SEARCH imageTagText
   \<and> \<not> present THINK imageTagText
   \<and> console (fst (tryBody imageTagEnv demoInput)) = [(1, SIMPLE), (2, IMAGE)]
   \<and> last (calls (fst (tryBody imageTagEnv demoInput))) = GenerateImage (str ''cat'') (str ''k'') None
   \<and> map text (messages (runAutonomousAgent imageTagEnv demoInput)) = [str ''xy'']"
proof -
  let ?req = "simpleRequest imageTagEnv demoInput (contextOf imageTagEnv (str ''{}'')) [TextPart (str ''hi'')]"
  let ?response = "\<lparr> chunks = [\<lparr> chunk_text = Some imageTagText, candidates = None \<rparr>], failure = None \<rparr>"
  have 1: "tagOf IMAGE = Some (str ''<IMAGE>'', str ''</IMAGE>'')" by simp
  have gc: "getContext imageTagEnv (ident (user demoInput)) allLayers = Inr (str ''{}'')"
    by (simp add: imageTagEnv_def scriptedEnv_def)
  have c: "GenerateContentStream ?req \<in> set (calls (fst (tryBody imageTagEnv demoInput)))"
    by (simp add: imageTagEnv_def imageTagText_def contextOf_def run_defs)
  have r: "generateContentStream imageTagEnv ?req = Inr ?response"
    by (simp add: imageTagEnv_def scriptedEnv_def simpleRequest_def Let_def)
  have f: "failure ?response = None" by simp
  have g: "generatedText (chunks ?response) = imageTagText"
    by (simp add: generatedText_def truthyText_def imageTagText_def str_def)
  have "rxMatch False (pairRx (str ''<IMAGE>'') (str ''</IMAGE>'')) imageTagText \<noteq> None"
    by (simp add: imageTagText_def pairRx_def string_defs)
  then have 2: "hasPair (str ''<IMAGE>'') (str ''</IMAGE>'') imageTagText"
    by (simp add: pair_None_iff)
  have "deepMatch imageTagText = None" "searchMatch imageTagText = None"
    "thinkMatch imageTagText = None"
    by (simp_all add: imageTagText_def scan_defs string_defs)
  then have n: "\<not> present DEEP_SEARCH imageTagText" "\<not> present SEARCH imageTagText"
    "\<not> present THINK imageTagText"
    by (simp_all add: match_present)
  have t: "takeWhile (\<lambda>b. b \<noteq> IMAGE) priority = [DEEP_SEARCH, SEARCH, THINK]"
    by (simp add: priority_def)
  from n t have 3: "\<forall>b \<in> set (takeWhile (\<lambda>b. b \<noteq> IMAGE) priority). \<not> present b imageTagText"
    by simp
  have l: "last (calls (fst (tryBody imageTagEnv demoInput))) = GenerateImage (str ''cat'') (str ''k'') None"
    by (simp add: imageTagEnv_def imageTagText_def run_defs)
  have m: "map text (messages (runAutonomousAgent imageTagEnv demoInput)) = [str ''xy'']"
    by (simp add: imageTagEnv_def imageTagText_def run_defs)
  have h2: "hasPair (str ''<IMAGE>'') (str ''</IMAGE>'') (generatedText (chunks ?response))"
    using 2 by (simp only: g)
  have h3: "\<forall>b \<in> set (takeWhile (\<lambda>b. b \<noteq> IMAGE) priority).
      \<not> present b (generatedText (chunks ?response))"
    using 3 by (simp only: g)
  from tag_pair_rerouted [OF 1 gc c r f h2 h3]
  have 4: "console (fst (tryBody imageTagEnv demoInput)) = [(1, SIMPLE), (2, IMAGE)]"
    by blast
  from g have g': "generatedText [\<lparr> chunk_text = Some imageTagText, candidates = None \<rparr>] = imageTagText"
    by simp
  from 1 gc c r g' 2 t n 4 l m show ?thesis by blast
qed


text \<open>
  Claim C1 as stated fails when the text has tags of two modes: the tag of the mode that
  the scan tries first is taken, and the other tag stays in the response text.
\<close>

theorem lower_priority_tag_counterexample:
  "hasPair (str ''<IMAGE>'') (str ''</IMAGE>'') twoTagsText
   \<and> currentAction (fst (tagDetection demoInput twoTagsText (scanState twoTagsText))) = SEARCH
   \<and> finalResponseText (fst (tagDetection demoInput twoTagsText (scanState twoTagsText)))
       = str ''<IMAGE>b</IMAGE>''
   \<and> console (fst (tryBody twoTagsEnv demoInput)) = [(1, SIMPLE), (2, SEARCH)]
   \<and> map text (messages (runAutonomousAgent twoTagsEnv demoInput)) = [str ''<IMAGE>b</IMAGE>found'']"
proof -
  have "rxMatch False (pairRx (str ''<IMAGE>'') (str ''</IMAGE>'')) twoTagsText \<noteq> None"
    by (simp add: twoTagsText_def pairRx_def string_defs)
  then have "hasPair (str ''<IMAGE>'') (str ''</IMAGE>'') twoTagsText"
    by (simp add: pair_None_iff)
  moreover have "currentAction (fst (tagDetection demoInput twoTagsText (scanState twoTagsText))) = SEARCH"
    "finalResponseText (fst (tagDetection demoInput twoTagsText (scanState twoTagsText)))
       = str ''<IMAGE>b</IMAGE>''"
    by (simp_all add: twoTagsText_def eval_defs)
  moreover have "console (fst (tryBody twoTagsEnv demoInput)) = [(1, SIMPLE), (2, SEARCH)]"
    "map text (messages (runAutonomousAgent twoTagsEnv demoInput)) = [str ''<IMAGE>b</IMAGE>found'']"
    by (simp_all add: twoTagsEnv_def twoTagsText_def demo_defs string_defs scan_defs step_defs
        agentLoop.simps Let_def)
  ultimately show ?thesis by blast
qed


section \<open>The router and the first mode\<close>

text \<open>
  Claim C6. \<^verbatim>\<open>route\<close> returns the same decision for every argument: action
  \<^verbatim>\<open>SIMPLE\<close>, no parameters, confidence 1, quota ok, and the eight memory layers. So
  the loop starts in the conversational mode. A run logs no iteration exactly when the
  memory context threw; otherwise its first iteration is logged as \<^verbatim>\<open>SIMPLE\<close> and is
  the conversational mode run from the initial state, after which the loop goes on or the
  run ends. The first model call of a run, if there is one, is the request of the
  conversational mode. A second iteration runs a mode other than \<^verbatim>\<open>SIMPLE\<close> that the
  tag scan chose from the text of the first stream, and the tag of that mode is in that
  text.
\<close>

theorem route_is_constant_and_first_mode_simple:
  "route query userId key' fileCount =
     \<lparr> action = SIMPLE, parameters = Map.empty, confidence = 1,
       memoryLayers = [str ''inner_personal'', str ''outer_personal'', str ''interests'',
                       str ''preferences'', str ''custom'', str ''codebase'',
                       str ''aesthetic'', str ''project''],
       quotaOK = True,
       reasoning = str ''Defaulting to conversation. Tags will trigger specific actions.'' \<rparr>
   \<and> currentAction (initialState inp) = SIMPLE
   \<and> (console (fst (tryBody env inp)) = []
        \<longleftrightarrow> (\<exists>e. getContext env (ident (user inp)) allLayers = Inl e))
   \<and> (\<forall>mc. getContext env (ident (user inp)) allLayers = Inr mc \<longrightarrow>
          (\<exists>rest. console (fst (tryBody env inp)) = (1, SIMPLE) # rest)
          \<and> tryBody env inp =
              (case execSIMPLE env inp (contextOf env mc) (logIteration 1 (initialState inp)) of
                 (st1, Continue) \<Rightarrow> agentLoop env inp (contextOf env mc) 1 st1
               | (st1, Return m) \<Rightarrow> (st1, Inr m)
               | (st1, Throw e) \<Rightarrow> (st1, Inl e)))
   \<and> (filter isModelCall (calls (fst (tryBody env inp))) = []
        \<or> (\<exists>ctx ps. hd (filter isModelCall (calls (fst (tryBody env inp))))
              = GenerateContentStream (simpleRequest env inp ctx ps)))
   \<and> (console (fst (tryBody env inp)) = []
      \<or> console (fst (tryBody env inp)) = [(1, SIMPLE)]
      \<or> (\<exists>req response st2 st3.
            GenerateContentStream req \<in> set (calls (fst (tryBody env inp)))
            \<and> generateContentStream env req = Inr response
            \<and> tagDetection inp (generatedText (chunks response)) st2 = (st3, Continue)
            \<and> \<not> noTag (generatedText (chunks response))
            \<and> present (currentAction st3) (generatedText (chunks response))
            \<and> currentAction st3 \<noteq> SIMPLE
            \<and> console (fst (tryBody env inp)) = [(1, SIMPLE), (2, currentAction st3)]))"
proof -
  have shapes: "(\<exists>e. getContext env (ident (user inp)) allLayers = Inl e)
        \<and> console (fst (tryBody env inp)) = []
      \<or> (\<exists>rest. console (fst (tryBody env inp)) = (1, SIMPLE) # rest)"
  proof (cases rule: tryBody_cases [of env inp])
    case (noContext e)
    then show ?thesis by simp
  next
    case (simpleThrew st1 e new)
    then show ?thesis by simp
  next
    case (simpleReturned response st2 st3 ctx userParts new)
    then show ?thesis by simp
  next
    case (rerouted response st2 st3 ctx st4 fl userParts new)
    from \<open>toolStep env inp (logIteration 2 st3) (st4, fl)\<close>
    have "console st4 = console st3 @ [(2, currentAction st3)]"
      by (simp add: toolStep_def)
    with rerouted(5,15) show ?thesis by simp
  qed
  have inl: "console (fst (tryBody env inp)) = []"
    if "getContext env (ident (user inp)) allLayers = Inl e" for e
    using that by (simp add: tryBody_def)
  have 3: "console (fst (tryBody env inp)) = []
        \<longleftrightarrow> (\<exists>e. getContext env (ident (user inp)) allLayers = Inl e)"
    using shapes inl by auto
  have 4: "(\<exists>rest. console (fst (tryBody env inp)) = (1, SIMPLE) # rest)
          \<and> tryBody env inp =
              (case execSIMPLE env inp (contextOf env mc) (logIteration 1 (initialState inp)) of
                 (st1, Continue) \<Rightarrow> agentLoop env inp (contextOf env mc) 1 st1
               | (st1, Return m) \<Rightarrow> (st1, Inr m)
               | (st1, Throw e) \<Rightarrow> (st1, Inl e))"
    if gc: "getContext env (ident (user inp)) allLayers = Inr mc" for mc
  proof
    from shapes gc show "\<exists>rest. console (fst (tryBody env inp)) = (1, SIMPLE) # rest" by auto
    have "tryBody env inp = agentLoop env inp (contextOf env mc) 0 (initialState inp)"
      using gc by (simp add: tryBody_def contextOf_def)
    moreover have "execAction env inp (contextOf env mc) (logIteration 1 (initialState inp))
        = execSIMPLE env inp (contextOf env mc) (logIteration 1 (initialState inp))"
      by (simp add: execAction_def)
    ultimately show "tryBody env inp =
              (case execSIMPLE env inp (contextOf env mc) (logIteration 1 (initialState inp)) of
                 (st1, Continue) \<Rightarrow> agentLoop env inp (contextOf env mc) 1 st1
               | (st1, Return m) \<Rightarrow> (st1, Inr m)
               | (st1, Throw e) \<Rightarrow> (st1, Inl e))"
      by (simp add: agentLoop_first_step)
  qed
  have 5: "filter isModelCall (calls (fst (tryBody env inp))) = []
        \<or> (\<exists>ctx ps. hd (filter isModelCall (calls (fst (tryBody env inp))))
              = GenerateContentStream (simpleRequest env inp ctx ps))"
  proof (cases rule: tryBody_cases [of env inp])
    case (noContext e)
    then show ?thesis by simp
  next
    case (simpleThrew st1 e new)
    show ?thesis
    proof (cases "filter isModelCall new")
      case Nil
      with simpleThrew(1,3) show ?thesis by simp
    next
      case (Cons c cs)
      then have "c \<in> set (filter isModelCall new)" by simp
      then have "c \<in> set new" "isModelCall c" by simp_all
      with simpleThrew(6) obtain ctx :: Ctx and ps where
        "c = GenerateContentStream (simpleRequest env inp ctx ps)"
        by blast
      with Cons simpleThrew(1,3) show ?thesis by auto
    qed
  next
    case (simpleReturned response st2 st3 ctx userParts new)
    then have "filter isModelCall (calls (fst (tryBody env inp)))
        = [GenerateContentStream (simpleRequest env inp ctx userParts)]"
      by simp
    then show ?thesis by auto
  next
    case (rerouted response st2 st3 ctx st4 fl userParts new)
    from \<open>toolStep env inp (logIteration 2 st3) (st4, fl)\<close>
    obtain new2 where "calls st4 = calls st3 @ new2"
      by (auto simp add: toolStep_def)
    with rerouted(7,8,15) have "filter isModelCall (calls (fst (tryBody env inp)))
        = GenerateContentStream (simpleRequest env inp ctx userParts) # filter isModelCall new2"
      by simp
    then show ?thesis by auto
  qed
  have 6: "console (fst (tryBody env inp)) = []
      \<or> console (fst (tryBody env inp)) = [(1, SIMPLE)]
      \<or> (\<exists>req response st2 st3.
            GenerateContentStream req \<in> set (calls (fst (tryBody env inp)))
            \<and> generateContentStream env req = Inr response
            \<and> tagDetection inp (generatedText (chunks response)) st2 = (st3, Continue)
            \<and> \<not> noTag (generatedText (chunks response))
            \<and> present (currentAction st3) (generatedText (chunks response))
            \<and> currentAction st3 \<noteq> SIMPLE
            \<and> console (fst (tryBody env inp)) = [(1, SIMPLE), (2, currentAction st3)])"
  proof (cases rule: tryBody_cases [of env inp])
    case (noContext e)
    then show ?thesis by simp
  next
    case (simpleThrew st1 e new)
    then show ?thesis by simp
  next
    case (simpleReturned response st2 st3 ctx userParts new)
    then show ?thesis by simp
  next
    case (rerouted response st2 st3 ctx st4 fl userParts new)
    from \<open>toolStep env inp (logIteration 2 st3) (st4, fl)\<close>
    obtain new2 where ts: "console st4 = console st3 @ [(2, currentAction st3)]"
      "calls st4 = calls st3 @ new2"
      by (auto simp add: toolStep_def)
    have "GenerateContentStream (simpleRequest env inp ctx userParts) \<in> set (calls st4)"
      using ts rerouted(7) by simp
    moreover from tag_priority_find [OF rerouted(1)]
    have "present (currentAction st3) (generatedText (chunks response))"
      by (cases "find (\<lambda>a. present a (generatedText (chunks response))) priority")
         (auto simp add: find_Some_iff)
    ultimately show ?thesis
      using ts rerouted(1,3,5,9,12,15)
      by (intro disjI2 exI [of _ "simpleRequest env inp ctx userParts"] exI [of _ response]
          exI [of _ st2] exI [of _ st3]) simp
  qed
  have 1: "route query userId key' fileCount =
     \<lparr> action = SIMPLE, parameters = Map.empty, confidence = 1,
       memoryLayers = [str ''inner_personal'', str ''outer_personal'', str ''interests'',
                       str ''preferences'', str ''custom'', str ''codebase'',
                       str ''aesthetic'', str ''project''],
       quotaOK = True,
       reasoning = str ''Defaulting to conversation. Tags will trigger specific actions.'' \<rparr>"
    by (simp add: route_def)
  have 2: "currentAction (initialState inp) = SIMPLE" by simp
  from 4 have q4: "\<forall>mc. getContext env (ident (user inp)) allLayers = Inr mc \<longrightarrow>
          (\<exists>rest. console (fst (tryBody env inp)) = (1, SIMPLE) # rest)
          \<and> tryBody env inp =
              (case execSIMPLE env inp (contextOf env mc) (logIteration 1 (initialState inp)) of
                 (st1, Continue) \<Rightarrow> agentLoop env inp (contextOf env mc) 1 st1
               | (st1, Return m) \<Rightarrow> (st1, Inr m)
               | (st1, Throw e) \<Rightarrow> (st1, Inl e))"
    by blast
  show ?thesis
    apply (intro conjI)
    apply (rule 1, rule 2, rule 3, rule q4, rule 5, rule 6)
    done
qed


text \<open>A run that switches to the search mode after its conversational iteration.\<close>

theorem route_is_constant_and_first_mode_simple_witness:
  "getContext searchEnv (ident (user demoInput)) allLayers = Inr (str ''{}'')
   \<and> (\<exists>rest. console (fst (tryBody searchEnv demoInput)) = (1, SIMPLE) # rest)
   \<and> console (fst (tryBody searchEnv demoInput)) = [(1, SIMPLE), (2, SEARCH)]
   \<and> present SEARCH (str ''Let me look. <SEARCH>cats</SEARCH>'')"
proof -
  have gc: "getContext searchEnv (ident (user demoInput)) allLayers = Inr (str ''{}'')"
    by (simp add: searchEnv_def scriptedEnv_def)
  from route_is_constant_and_first_mode_simple [of "[]" "[]" "[]" 0 demoInput searchEnv] gc
  have r: "\<exists>rest. console (fst (tryBody searchEnv demoInput)) = (1, SIMPLE) # rest"
    by blast
  have c: "console (fst (tryBody searchEnv demoInput)) = [(1, SIMPLE), (2, SEARCH)]"
    by (simp add: searchEnv_def run_defs)
  have "searchMatch (str ''Let me look. <SEARCH>cats</SEARCH>'') \<noteq> None"
    by (simp add: scan_defs string_defs)
  then have p: "present SEARCH (str ''Let me look. <SEARCH>cats</SEARCH>'')"
    by (simp add: match_present)
  from gc r c p show ?thesis by blast
qed


section \<open>The image mode\<close>

text \<open>
  Claim C7. A run whose second iteration is the image mode: the text generated by the
  conversation has a pair of \<^verbatim>\<open>IMAGE\<close> tags, the response text accumulated before the
  image mode is that text without the first such tag (the image mode announces it in its
  \<^verbatim>\<open>image_generation_start\<close> event), and image generation is called with the content of
  the tag. When image generation throws, \<^verbatim>\<open>runAutonomousAgent\<close> returns one message
  without image whose text is the accumulated text followed by the note
  \<^verbatim>\<open>(Image generation failed: ...)\<close> with the message of the error, or
  \<^verbatim>\<open>Unknown error\<close> for a thrown value that is no error; when it succeeds, it returns one
  message with the accumulated text unchanged, the image and the status \<^verbatim>\<open>'complete'\<close>.
\<close>

theorem image_mode_outcomes:
  assumes "console (fst (tryBody env inp)) = [(1, SIMPLE), (2, IMAGE)]"
  shows "\<exists>(ctx :: Ctx) ps response pre p post.
      GenerateContentStream (simpleRequest env inp ctx ps) \<in> set (calls (fst (tryBody env inp)))
      \<and> generateContentStream env (simpleRequest env inp ctx ps) = Inr response
      \<and> generatedText (chunks response) = pre @ str ''<IMAGE>'' @ p @ str ''</IMAGE>'' @ post
      \<and> (\<forall>c \<in> set p. \<not> isLineTerminator c)
      \<and> (\<forall>pre' p' post'.
            generatedText (chunks response) = pre' @ str ''<IMAGE>'' @ p' @ str ''</IMAGE>'' @ post'
            \<and> (\<forall>c \<in> set p'. \<not> isLineTerminator c) \<longrightarrow> length pre \<le> length pre')
      \<and> (\<forall>p' post'. p @ str ''</IMAGE>'' @ post = p' @ str ''</IMAGE>'' @ post'
            \<longrightarrow> length p \<le> length p')
      \<and> ImageGenerationStart (pre @ post) \<in> set (streamed (fst (tryBody env inp)))
      \<and> last (calls (fst (tryBody env inp)))
           = GenerateImage p (apiKey inp) (preferredImageModel inp)
      \<and> (\<forall>e. generateImage env p (apiKey inp) (preferredImageModel inp) = Inl e \<longrightarrow>
            (\<exists>m. messages (runAutonomousAgent env inp) = [m]
               \<and> image_base64 m = None \<and> imageStatus m = None
               \<and> text m = pre @ post
                    @ str ''\<newline>\<newline>(Image generation failed: ''
                    @ (case e of ErrorObject message \<Rightarrow> message
                       | OtherValue v \<Rightarrow> str ''Unknown error'')
                    @ str '')''))
      \<and> (\<forall>imageBase64.
            generateImage env p (apiKey inp) (preferredImageModel inp) = Inr imageBase64 \<longrightarrow>
            (\<exists>m. messages (runAutonomousAgent env inp) = [m]
               \<and> text m = pre @ post
               \<and> image_base64 m = Some imageBase64
               \<and> imageStatus m = Some (str ''complete'')))"
proof (cases rule: tryBody_cases [of env inp])
  case (noContext e)
  with assms show ?thesis by simp
next
  case (simpleThrew st1 e new)
  with assms show ?thesis by simp
next
  case (simpleReturned response st2 st3 ctx userParts new)
  with assms show ?thesis by simp
next
  case (rerouted response st2 st3 ctx st4 fl userParts new)
  let ?g = "generatedText (chunks response)"
  let ?s = "logIteration 2 st3"
  let ?O = "str ''<IMAGE>''" and ?C = "str ''</IMAGE>''"
  from \<open>toolStep env inp ?s (st4, fl)\<close>
  have "console st4 = console st3 @ [(2, currentAction st3)]"
    by (simp add: toolStep_def)
  with assms rerouted(5,15) have a: "currentAction st3 = IMAGE" by simp
  from scan_image [OF rerouted(1) a] obtain m where m: "imageMatch ?g = Some m"
    "st3 = (reroute IMAGE (group1 m) (whole m) st2)
              \<lparr>routing := (routing st2)\<lparr>parameters := [''prompt'' \<mapsto> group1 m]\<rparr>\<rparr>"
    by blast
  from m(1) have rx: "rxMatch False (pairRx ?O ?C) ?g = Some m"
    by (simp add: imageMatch_def)
  from pair_Some_first [OF rx] obtain pre p post where k:
    "?g = pre @ ?O @ p @ ?C @ post" "group1 m = p" "removeFirst (whole m) ?g = pre @ post"
    "\<forall>c \<in> set p. \<not> isLineTerminator c"
    "\<forall>pre' p' post'. ?g = pre' @ ?O @ p' @ ?C @ post'
          \<and> (\<forall>c \<in> set p'. \<not> isLineTerminator c) \<longrightarrow> length pre \<le> length pre'"
    "\<forall>p' post'. p @ ?C @ post = p' @ ?C @ post' \<longrightarrow> length p \<le> length p'"
    by blast
  have ip: "imagePrompt ?s = p"
    using m(2) k(2) by (simp add: imagePrompt_def reroute_def)
  have ft: "finalResponseText ?s = pre @ post"
    using m(2) k(3) rerouted(2) by (simp add: reroute_def)
  have ex: "execIMAGE env inp ctx ?s = (st4, fl)"
    using rerouted(13) a by (simp add: execAction_def)
  note res = execIMAGE_result [OF ex, unfolded ip ft]
  have f4: "fst (tryBody env inp) = st4" using rerouted(15) by simp
  have 1: "GenerateContentStream (simpleRequest env inp ctx userParts)
      \<in> set (calls (fst (tryBody env inp)))"
    using res(3) rerouted(7) by (auto simp add: f4)
  have 6: "ImageGenerationStart (pre @ post) \<in> set (streamed (fst (tryBody env inp)))"
    using res(2) by (simp add: f4)
  have 7: "last (calls (fst (tryBody env inp)))
           = GenerateImage p (apiKey inp) (preferredImageModel inp)"
    using res(1) by (simp add: f4)
  have 8: "\<forall>e. generateImage env p (apiKey inp) (preferredImageModel inp) = Inl e \<longrightarrow>
            (\<exists>m. messages (runAutonomousAgent env inp) = [m]
               \<and> image_base64 m = None \<and> imageStatus m = None
               \<and> text m = pre @ post
                    @ str ''\<newline>\<newline>(Image generation failed: ''
                    @ (case e of ErrorObject message \<Rightarrow> message
                       | OtherValue v \<Rightarrow> str ''Unknown error'')
                    @ str '')'')"
  proof (intro allI impI)
    fix e assume "generateImage env p (apiKey inp) (preferredImageModel inp) = Inl e"
    from res(4) [OF this] obtain m where "fl = Return m" "image_base64 m = None"
      "imageStatus m = None"
      "text m = (pre @ post)
                    @ str ''\<newline>\<newline>(Image generation failed: ''
                    @ (case e of ErrorObject message \<Rightarrow> message
                       | OtherValue v \<Rightarrow> str ''Unknown error'')
                    @ str '')''"
      by blast
    with rerouted(15) show "\<exists>m. messages (runAutonomousAgent env inp) = [m]
               \<and> image_base64 m = None \<and> imageStatus m = None
               \<and> text m = pre @ post
                    @ str ''\<newline>\<newline>(Image generation failed: ''
                    @ (case e of ErrorObject message \<Rightarrow> message
                       | OtherValue v \<Rightarrow> str ''Unknown error'')
                    @ str '')''"
      by (intro exI [of _ m]) (simp add: runAutonomousAgent_def)
  qed
  have 9: "\<forall>imageBase64.
            generateImage env p (apiKey inp) (preferredImageModel inp) = Inr imageBase64 \<longrightarrow>
            (\<exists>m. messages (runAutonomousAgent env inp) = [m]
               \<and> text m = pre @ post
               \<and> image_base64 m = Some imageBase64
               \<and> imageStatus m = Some (str ''complete''))"
  proof (intro allI impI)
    fix b assume "generateImage env p (apiKey inp) (preferredImageModel inp) = Inr b"
    from res(5) [OF this] obtain m where "fl = Return m" "text m = pre @ post"
      "image_base64 m = Some b" "imageStatus m = Some (str ''complete'')"
      by blast
    with rerouted(15) show "\<exists>m. messages (runAutonomousAgent env inp) = [m]
               \<and> text m = pre @ post
               \<and> image_base64 m = Some b
               \<and> imageStatus m = Some (str ''complete'')"
      by (intro exI [of _ m]) (simp add: runAutonomousAgent_def)
  qed
  show ?thesis
    apply (rule exI [of _ ctx], rule exI [of _ userParts], rule exI [of _ response],
        rule exI [of _ pre], rule exI [of _ p], rule exI [of _ post])
    apply (intro conjI)
    apply (rule 1, rule rerouted(9), rule k(1), rule k(4), rule k(5), rule k(6), rule 6, rule 7,
        rule 8, rule 9)
    done
qed


text \<open>
  Two runs whose model asks for an image: one where image generation fails, one where it
  works.
\<close>

theorem image_mode_outcomes_witness:
  "console (fst (tryBody imageFailureEnv demoInput)) = [(1, SIMPLE), (2, IMAGE)]
   \<and> (\<exists>m. messages (runAutonomousAgent imageFailureEnv demoInput) = [m]
         \<and> image_base64 m = None \<and> imageStatus m = None)
   \<and> map text (messages (runAutonomousAgent imageFailureEnv demoInput))
       = [str ''ok \<newline>\<newline>(Image generation failed: quota)'']
   \<and> console (fst (tryBody imageTagEnv demoInput)) = [(1, SIMPLE), (2, IMAGE)]
   \<and> (\<exists>m. messages (runAutonomousAgent imageTagEnv demoInput) = [m]
         \<and> image_base64 m = Some (str ''QQ'') \<and> imageStatus m = Some (str ''complete''))
   \<and> map text (messages (runAutonomousAgent imageTagEnv demoInput)) = [str ''xy'']"
proof -
  have c1: "console (fst (tryBody imageFailureEnv demoInput)) = [(1, SIMPLE), (2, IMAGE)]"
    by (simp add: imageFailureEnv_def run_defs)
  have t1: "map text (messages (runAutonomousAgent imageFailureEnv demoInput))
       = [str ''ok \<newline>\<newline>(Image generation failed: quota)'']"
    by (simp add: imageFailureEnv_def run_defs)
  have g1: "generateImage imageFailureEnv p (apiKey demoInput) (preferredImageModel demoInput)
      = Inl (ErrorObject (str ''quota''))" for p
    by (simp add: imageFailureEnv_def scriptedEnv_def)
  from image_mode_outcomes [OF c1] g1
  have m1: "\<exists>m. messages (runAutonomousAgent imageFailureEnv demoInput) = [m]
         \<and> image_base64 m = None \<and> imageStatus m = None"
    by blast
  have c2: "console (fst (tryBody imageTagEnv demoInput)) = [(1, SIMPLE), (2, IMAGE)]"
    by (simp add: imageTagEnv_def imageTagText_def run_defs)
  have t2: "map text (messages (runAutonomousAgent imageTagEnv demoInput)) = [str ''xy'']"
    by (simp add: imageTagEnv_def imageTagText_def run_defs)
  have g2: "generateImage imageTagEnv p (apiKey demoInput) (preferredImageModel demoInput)
      = Inr (str ''QQ'')" for p
    by (simp add: imageTagEnv_def scriptedEnv_def)
  from image_mode_outcomes [OF c2] g2
  have m2: "\<exists>m. messages (runAutonomousAgent imageTagEnv demoInput) = [m]
         \<and> image_base64 m = Some (str ''QQ'') \<and> imageStatus m = Some (str ''complete'')"
    by blast
  from c1 m1 t1 c2 m2 t2 show ?thesis by blast
qed

end
